theory Spec2Isabelle
  imports Main "HOL-Library.Multiset"
begin

section \<open>Values of the source language\<close>

text \<open>
  The pipeline of \<^verbatim>\<open>src/index.ts\<close> (function \<^verbatim>\<open>createIssues\<close>) is embedded as a
  state-passing function.  Exceptions are values: \<open>Error msg\<close> is
  \<^verbatim>\<open>throw new Error(msg)\<close>, \<open>TypeError\<close> is the engine's exception for reading a
  property of \<^verbatim>\<open>undefined\<close>, and \<open>Thrown msg\<close> is whatever a collaborator outside
  \<^verbatim>\<open>index.ts\<close> (the tracker client, the markdown parser, the file system) throws.
\<close>

datatype error = Error string | TypeError | Thrown string

text \<open>
  An optional string is a \<open>string option\<close>, \<open>None\<close> being \<^verbatim>\<open>undefined\<close>.  Truthiness of
  \<^verbatim>\<open>string | undefined\<close>: \<^verbatim>\<open>undefined\<close> and the empty string are falsy.
\<close>

fun truthy :: "string option \<Rightarrow> bool" where
  "truthy None = False"
| "truthy (Some s) = (s \<noteq> [])"

text \<open>Interpolation \<^verbatim>\<open>${x}\<close> in a template literal: \<^verbatim>\<open>undefined\<close> prints as its name.\<close>

fun str :: "string option \<Rightarrow> string" where
  "str None = ''undefined''"
| "str (Some s) = s"

text \<open>\<^verbatim>\<open>file.endsWith(suffix)\<close>.\<close>

definition endsWith :: "string \<Rightarrow> string \<Rightarrow> bool" where
  "endsWith file suffix =
     (length suffix \<le> length file \<and> drop (length file - length suffix) file = suffix)"

text \<open>The character class \<^verbatim>\<open>\d\<close> of a regular expression without the unicode flag.\<close>

definition is_digit :: "char \<Rightarrow> bool" where
  "is_digit c = (c \<in> set ''0123456789'')"

text \<open>
  \<^verbatim>\<open>file.match(/^(\d+)-/)?.[1]\<close>: the greedy digit run at the start of the name, when
  it is not empty and a \<^verbatim>\<open>-\<close> follows it; \<^verbatim>\<open>undefined\<close> otherwise.  (No shorter run can
  match: the character after it would be a digit.)
\<close>

definition match_epicNumber :: "string \<Rightarrow> string option" where
  "match_epicNumber file =
     (let ds = takeWhile is_digit file in
      if ds \<noteq> [] \<and> take 1 (dropWhile is_digit file) = ''-'' then Some ds else None)"

text \<open>\<^verbatim>\<open>s.split(sep)\<close> for a one-character separator: always at least one segment.\<close>

fun split :: "char \<Rightarrow> string \<Rightarrow> string list" where
  "split sep [] = [[]]"
| "split sep (c # cs) =
     (if c = sep then [] # split sep cs
      else (case split sep cs of
              [] \<Rightarrow> [[c]]
            | seg # segs \<Rightarrow> (c # seg) # segs))"

text \<open>
  \<^verbatim>\<open>const [epicNumber, storyNumber] = file.split("-").slice(0, 2)\<close>: the second
  component is \<^verbatim>\<open>undefined\<close> when the name holds no separator.
\<close>

definition segments :: "string \<Rightarrow> string \<times> string option" where
  "segments file =
     (case take 2 (split CHR ''-'' file) of
        [] \<Rightarrow> ([], None)
      | [a] \<Rightarrow> (a, None)
      | a # b # _ \<Rightarrow> (a, Some b))"

text \<open>\<^verbatim>\<open>xs.indexOf(x)\<close>: the first position of \<open>x\<close>, or \<open>-1\<close>.\<close>

fun indexOf :: "string list \<Rightarrow> string \<Rightarrow> int" where
  "indexOf [] x = -1"
| "indexOf (y # ys) x =
     (if y = x then 0
      else (let i = indexOf ys x in if i = -1 then -1 else i + 1))"

text \<open>\<^verbatim>\<open>[...new Set(xs)]\<close>: the first occurrence of each element, in order.\<close>

fun dedupe :: "'a list \<Rightarrow> 'a list \<Rightarrow> 'a list" where
  "dedupe seen [] = []"
| "dedupe seen (x # xs) =
     (if x \<in> set seen then dedupe seen xs else x # dedupe (seen @ [x]) xs)"

subsection \<open>Plain objects used as dictionaries\<close>

text \<open>
  \<^verbatim>\<open>Record<string, V>\<close> on a plain object: own properties in creation order.  An
  assignment to an existing key replaces the value and keeps the key's place.
\<close>

type_synonym 'v obj = "(string \<times> 'v) list"

definition obj_set :: "string \<Rightarrow> 'v \<Rightarrow> 'v obj \<Rightarrow> 'v obj" where
  "obj_set k v obj =
     (if k \<in> set (map fst obj)
      then map (\<lambda>(k', v'). if k' = k then (k', v) else (k', v')) obj
      else obj @ [(k, v)])"

definition int_of_dec :: "string \<Rightarrow> int" where
  "int_of_dec s = foldl (\<lambda>n c. 10 * n + (of_char c - 48)) 0 s"

text \<open>
  A key is an array index when it is the canonical decimal form of an integer below
  \<open>2^32 - 1\<close>.  \<^verbatim>\<open>Object.values\<close> lists the values of such keys first, by ascending
  number, and then the values of the other keys in creation order.
\<close>

definition isArrayIndex :: "string \<Rightarrow> bool" where
  "isArrayIndex s =
     (s \<noteq> [] \<and> list_all is_digit s \<and> (s = ''0'' \<or> take 1 s \<noteq> ''0'')
      \<and> int_of_dec s < 4294967295)"

definition obj_entries :: "'v obj \<Rightarrow> (string \<times> 'v) list" where
  "obj_entries obj =
     sort_key (\<lambda>kv. int_of_dec (fst kv)) (filter (\<lambda>kv. isArrayIndex (fst kv)) obj)
     @ filter (\<lambda>kv. \<not> isArrayIndex (fst kv)) obj"

definition obj_values :: "'v obj \<Rightarrow> 'v list" where
  "obj_values obj = map snd (obj_entries obj)"

text \<open>
  The property names every plain object inherits from \<^verbatim>\<open>Object.prototype\<close>: reading
  one of them from an object that has no own property of that name gives a value that is
  not \<^verbatim>\<open>undefined\<close>.
\<close>

definition objectPrototypeKeys :: "string list" where
  "objectPrototypeKeys =
     [''constructor'', ''__defineGetter__'', ''__defineSetter__'', ''hasOwnProperty'',
      ''__lookupGetter__'', ''__lookupSetter__'', ''isPrototypeOf'',
      ''propertyIsEnumerable'', ''toString'', ''valueOf'', ''__proto__'',
      ''toLocaleString'']"

section \<open>Records of the pipeline\<close>

text \<open>
  Modelled from the spec: the type \<^verbatim>\<open>MDStory\<close> of \<^verbatim>\<open>src/types.ts\<close>, which is not among
  the sources.  The spec gives a record a frontmatter block with the optional fields
  \<^verbatim>\<open>title, label, role, action, benefit\<close>, followed by a free-text description.
\<close>

record Frontmatter =
  title :: "string option"
  label :: "string option"
  role :: "string option"
  action :: "string option"
  benefit :: "string option"

record MDStory =
  frontmatter :: Frontmatter
  description :: string

text \<open>The value kept for an epic: \<^verbatim>\<open>{ epic: MDStory & { stories }, issueId }\<close>.\<close>

record EpicStory = MDStory +
  stories :: "MDStory list"

record EpicEntry =
  epic :: EpicStory
  issueId :: string

text \<open>
  \<^verbatim>\<open>MDStoryWithEpic\<close>; the nested object \<^verbatim>\<open>epic: { labelId, issueId }\<close> is flattened into
  the fields \<open>epic_labelId\<close> and \<open>epic_issueId\<close>, either of which may be
  \<^verbatim>\<open>undefined\<close>.
\<close>

record MDStoryWithEpic = MDStory +
  story_title :: string
  priority :: int
  epic_labelId :: "string option"
  epic_issueId :: "string option"

record Config =
  owner :: string
  repo :: string
  token :: string

text \<open>
  What the run reads from the file system: the listings of the two directories with the
  content of each file, and the parsed priority manifest (\<open>Inl\<close> when reading or
  \<^verbatim>\<open>JSON.parse\<close> throws).
\<close>

record Files =
  epicsDir :: "(string \<times> string) list"
  storiesDir :: "(string \<times> string) list"
  priorityFile :: "error + string list"

section \<open>The tracker client\<close>

text \<open>
  The module \<^verbatim>\<open>src/github/client.ts\<close> is not among the sources; its six functions are a
  parameter of the model.  Each call is recorded with its arguments, and the client
  answers from the calls made so far and the present call, so that any deterministic
  tracker is covered.  \<open>'p\<close> is the type of the project information.
\<close>

datatype 'p call =
    InitClient string
  | GetProjectInfo string string
  | GetRepositoryId string string
  | CreateLabelIfNotExists string "string option"
  | CreateIssue string 'p string string "string option" string string
  | CreateIssueAddToProject string 'p string string "string option" string string "string option"

record 'p client =
  initClient :: "'p call list \<Rightarrow> 'p call \<Rightarrow> error + unit"
  getProjectInfo :: "'p call list \<Rightarrow> 'p call \<Rightarrow> error + 'p option"
  getRepositoryId :: "'p call list \<Rightarrow> 'p call \<Rightarrow> error + string"
  createLabelIfNotExists :: "'p call list \<Rightarrow> 'p call \<Rightarrow> error + string"
  createIssue :: "'p call list \<Rightarrow> 'p call \<Rightarrow> error + string"
  createIssueAddToProject :: "'p call list \<Rightarrow> 'p call \<Rightarrow> error + string"

text \<open>The variables of \<^verbatim>\<open>createIssues\<close> that outlive a phase, and the calls made.\<close>

record 'p state =
  calls :: "'p call list"
  epics :: "EpicEntry obj"
  labelsByName :: "string option \<rightharpoonup> string"
  storiesWithEpic :: "MDStoryWithEpic list"

definition invoke ::
  "('p call list \<Rightarrow> 'p call \<Rightarrow> error + 'a) \<Rightarrow> 'p call \<Rightarrow> 'p state \<Rightarrow> (error + 'a) \<times> 'p state"
where
  "invoke f c st = (f (calls st) c, st\<lparr>calls := calls st @ [c]\<rparr>)"

section \<open>The phases of \<open>createIssues\<close>\<close>

text \<open>Lines 54-68: one entry per epic file, a later file replacing an earlier one.\<close>

definition newEpic :: "MDStory \<Rightarrow> EpicEntry" where
  "newEpic md =
     \<lparr>epic = \<lparr>frontmatter = frontmatter md, description = description md, stories = []\<rparr>,
      issueId = []\<rparr>"

fun readEpics ::
  "(string \<Rightarrow> error + MDStory) \<Rightarrow> (string \<times> string) list \<Rightarrow> EpicEntry obj
     \<Rightarrow> error + EpicEntry obj"
where
  "readEpics getMDStory [] obj = Inr obj"
| "readEpics getMDStory ((file, content) # files) obj =
     (case getMDStory content of
        Inl e \<Rightarrow> Inl e
      | Inr md \<Rightarrow>
          readEpics getMDStory files
            (obj_set (str (match_epicNumber file)) (newEpic md) obj))"

text \<open>Line 70.\<close>

definition labels :: "EpicEntry obj \<Rightarrow> string option list" where
  "labels obj =
     dedupe [] (map (\<lambda>e. label (frontmatter (epic e))) (obj_values obj) @ [Some ''Epic''])"

text \<open>Lines 72-80.\<close>

fun resolveLabels ::
  "'p client \<Rightarrow> string \<Rightarrow> string option list \<Rightarrow> 'p state \<Rightarrow> (error + unit) \<times> 'p state"
where
  "resolveLabels cl repositoryId [] st = (Inr (), st)"
| "resolveLabels cl repositoryId (l # ls) st =
     (case invoke (createLabelIfNotExists cl) (CreateLabelIfNotExists repositoryId l) st of
        (Inl e, st') \<Rightarrow> (Inl e, st')
      | (Inr labelInfo_id, st') \<Rightarrow>
          resolveLabels cl repositoryId ls
            (st'\<lparr>labelsByName := (labelsByName st')(l \<mapsto> labelInfo_id)\<rparr>))"

text \<open>Lines 105-107 and 156-157: the bodies of the issues.\<close>

definition epicBody :: "Frontmatter \<Rightarrow> string" where
  "epicBody fm =
     (if truthy (role fm)
      then ''As a '' @ str (role fm) @ '', I want to '' @ str (action fm)
           @ '' so that '' @ str (benefit fm) @ ''.''
      else [])"

definition storyBody :: "MDStoryWithEpic \<Rightarrow> string" where
  "storyBody story =
     (if truthy (role (frontmatter story))
      then ''As a '' @ str (role (frontmatter story)) @ '', I want to ''
           @ str (action (frontmatter story)) @ '' so that ''
           @ str (benefit (frontmatter story)) @ ''.'' @ [CHR 0x0A, CHR 0x0A]
      else [])
     @ description story"

definition label_not_found :: string where
  "label_not_found = ''Label '' @ [CHR 0x22] @ ''Epic'' @ [CHR 0x22] @ '' not found''"

text \<open>
  Lines 91-113, over the entries \<^verbatim>\<open>Object.values(epics)\<close> had when the loop started;
  the assignment to \<^verbatim>\<open>epicStory.issueId\<close> changes the entry kept under its key.
\<close>

definition epicCall :: "string \<Rightarrow> 'p \<Rightarrow> Config \<Rightarrow> EpicEntry \<Rightarrow> string \<Rightarrow> 'p call" where
  "epicCall repositoryId projectInfo cfg epicStory labelId =
     CreateIssue repositoryId projectInfo (owner cfg) (repo cfg)
       (title (frontmatter (epic epicStory))) (epicBody (frontmatter (epic epicStory)))
       labelId"

fun createEpics ::
  "'p client \<Rightarrow> string \<Rightarrow> 'p \<Rightarrow> Config \<Rightarrow> (string \<times> EpicEntry) list \<Rightarrow> 'p state
     \<Rightarrow> (error + unit) \<times> 'p state"
where
  "createEpics cl repositoryId projectInfo cfg [] st = (Inr (), st)"
| "createEpics cl repositoryId projectInfo cfg ((k, epicStory) # es) st =
     (case labelsByName st (Some ''Epic'') of
        None \<Rightarrow> (Inl (Error label_not_found), st)
      | Some labelId \<Rightarrow>
          if labelId = [] then (Inl (Error label_not_found), st)
          else
            (case invoke (createIssue cl)
                    (epicCall repositoryId projectInfo cfg epicStory labelId) st of
               (Inl e, st') \<Rightarrow> (Inl e, st')
             | (Inr issueId', st') \<Rightarrow>
                 createEpics cl repositoryId projectInfo cfg es
                   (st'\<lparr>epics := obj_set k (epicStory\<lparr>issueId := issueId'\<rparr>) (epics st')\<rparr>)))"

text \<open>
  \<^verbatim>\<open>epics[epicNumber].issueId\<close>: the own entry's identifier; \<^verbatim>\<open>undefined\<close> when the name
  is only inherited; a \<^verbatim>\<open>TypeError\<close> when the object has no such property at all.
\<close>

definition epic_issueId_of :: "EpicEntry obj \<Rightarrow> string \<Rightarrow> error + string option" where
  "epic_issueId_of obj epicNumber =
     (case map_of obj epicNumber of
        Some e \<Rightarrow> Inr (Some (issueId e))
      | None \<Rightarrow> if epicNumber \<in> set objectPrototypeKeys then Inr None else Inl TypeError)"

definition storyId :: "string \<Rightarrow> string" where
  "storyId file = (case segments file of (epicNumber, storyNumber) \<Rightarrow>
     epicNumber @ ''-'' @ str storyNumber)"

text \<open>Line 133: the title of a story, before the check of line 135.\<close>

definition storyTitle :: "Frontmatter \<Rightarrow> string option" where
  "storyTitle fm =
     (if truthy (role fm)
      then Some (''As a '' @ str (role fm) @ '', I want to '' @ str (action fm))
      else title fm)"

text \<open>Lines 119-151: the callback of \<^verbatim>\<open>storyFiles.map\<close>.\<close>

definition mkStory ::
  "(string \<Rightarrow> error + MDStory) \<Rightarrow> string list \<Rightarrow> 'p state \<Rightarrow> string \<times> string
     \<Rightarrow> error + MDStoryWithEpic"
where
  "mkStory getMDStory priorityOrder st fc =
     (case fc of (file, content) \<Rightarrow>
     (case getMDStory content of
        Inl e \<Rightarrow> Inl e
      | Inr md \<Rightarrow>
          let epicNumber = fst (segments file);
              priorityIndex = indexOf priorityOrder (storyId file)
          in
          if priorityIndex = -1
          then Inl (Error (''Story '' @ file @ '' not found in priority order''))
          else
            let title' = storyTitle (frontmatter md) in
            if \<not> truthy title' then Inl (Error (''Title not set for '' @ file))
            else
              (case epic_issueId_of (epics st) epicNumber of
                 Inl e \<Rightarrow> Inl e
               | Inr parent \<Rightarrow>
                   Inr \<lparr>frontmatter = frontmatter md, description = description md,
                        story_title = str title', priority = priorityIndex + 1,
                        epic_labelId = labelsByName st (label (frontmatter md)),
                        epic_issueId = parent\<rparr>)))"

text \<open>\<^verbatim>\<open>xs.map(f)\<close> with a callback that may throw: the first exception ends the map.\<close>

fun mapE :: "('a \<Rightarrow> error + 'b) \<Rightarrow> 'a list \<Rightarrow> error + 'b list" where
  "mapE f [] = Inr []"
| "mapE f (x # xs) =
     (case f x of
        Inl e \<Rightarrow> Inl e
      | Inr y \<Rightarrow> (case mapE f xs of Inl e \<Rightarrow> Inl e | Inr ys \<Rightarrow> Inr (y # ys)))"

text \<open>Lines 155-171.\<close>

definition storyCall :: "string \<Rightarrow> 'p \<Rightarrow> Config \<Rightarrow> MDStoryWithEpic \<Rightarrow> 'p call" where
  "storyCall repositoryId projectInfo cfg story =
     CreateIssueAddToProject repositoryId projectInfo (owner cfg) (repo cfg)
       (epic_issueId story) (story_title story) (storyBody story) (epic_labelId story)"

fun createStories ::
  "'p client \<Rightarrow> string \<Rightarrow> 'p \<Rightarrow> Config \<Rightarrow> MDStoryWithEpic list \<Rightarrow> 'p state
     \<Rightarrow> (error + unit) \<times> 'p state"
where
  "createStories cl repositoryId projectInfo cfg [] st = (Inr (), st)"
| "createStories cl repositoryId projectInfo cfg (story # ss) st =
     (case invoke (createIssueAddToProject cl)
             (storyCall repositoryId projectInfo cfg story) st of
        (Inl e, st') \<Rightarrow> (Inl e, st')
      | (Inr _, st') \<Rightarrow> createStories cl repositoryId projectInfo cfg ss st')"

definition mdFiles :: "(string \<times> string) list \<Rightarrow> (string \<times> string) list" where
  "mdFiles dir = filter (\<lambda>fc. endsWith (fst fc) ''.md'') dir"

text \<open>Lines 115-171: the stories, once the epics exist.\<close>

definition storyPhase ::
  "'p client \<Rightarrow> (string \<Rightarrow> error + MDStory) \<Rightarrow> Config \<Rightarrow> Files \<Rightarrow> string \<Rightarrow> 'p
     \<Rightarrow> 'p state \<Rightarrow> (error + unit) \<times> 'p state"
where
  "storyPhase cl getMDStory cfg fs repositoryId projectInfo st =
     (case priorityFile fs of
        Inl e \<Rightarrow> (Inl e, st)
      | Inr priorityOrder \<Rightarrow>
          (case mapE (mkStory getMDStory priorityOrder st) (mdFiles (storiesDir fs)) of
             Inl e \<Rightarrow> (Inl e, st)
           | Inr ss \<Rightarrow>
               createStories cl repositoryId projectInfo cfg (sort_key priority ss)
                 (st\<lparr>storiesWithEpic := sort_key priority ss\<rparr>)))"

text \<open>Lines 45-113: the epics and the labels, once the repository is known.\<close>

definition epicPhase ::
  "'p client \<Rightarrow> (string \<Rightarrow> error + MDStory) \<Rightarrow> Config \<Rightarrow> Files \<Rightarrow> string \<Rightarrow> 'p
     \<Rightarrow> 'p state \<Rightarrow> (error + unit) \<times> 'p state"
where
  "epicPhase cl getMDStory cfg fs repositoryId projectInfo st =
     (case readEpics getMDStory (mdFiles (epicsDir fs)) [] of
        Inl e \<Rightarrow> (Inl e, st)
      | Inr obj \<Rightarrow>
          (case resolveLabels cl repositoryId (labels obj) (st\<lparr>epics := obj\<rparr>) of
             (Inl e, st') \<Rightarrow> (Inl e, st')
           | (Inr _, st') \<Rightarrow>
               createEpics cl repositoryId projectInfo cfg (obj_entries (epics st')) st'))"

definition init :: "'p state" where
  "init = \<lparr>calls = [], epics = [], labelsByName = Map.empty, storiesWithEpic = []\<rparr>"

text \<open>Lines 33-172.\<close>

definition createIssues ::
  "'p client \<Rightarrow> (string \<Rightarrow> error + MDStory) \<Rightarrow> Config \<Rightarrow> Files \<Rightarrow> (error + unit) \<times> 'p state"
where
  "createIssues cl getMDStory cfg fs =
     (case invoke (initClient cl) (InitClient (token cfg)) init of
        (Inl e, st0) \<Rightarrow> (Inl e, st0)
      | (Inr _, st0) \<Rightarrow>
     (case invoke (getProjectInfo cl) (GetProjectInfo (owner cfg) (repo cfg)) st0 of
        (Inl e, st1) \<Rightarrow> (Inl e, st1)
      | (Inr None, st1) \<Rightarrow> (Inl (Error ''Could not find project information''), st1)
      | (Inr (Some projectInfo), st1) \<Rightarrow>
     (case invoke (getRepositoryId cl) (GetRepositoryId (owner cfg) (repo cfg)) st1 of
        (Inl e, st2) \<Rightarrow> (Inl e, st2)
      | (Inr repositoryId, st2) \<Rightarrow>
     (case epicPhase cl getMDStory cfg fs repositoryId projectInfo st2 of
        (Inl e, st3) \<Rightarrow> (Inl e, st3)
      | (Inr _, st3) \<Rightarrow> storyPhase cl getMDStory cfg fs repositoryId projectInfo st3))))"

section \<open>Observing a run\<close>

text \<open>The kinds of calls in the record of a run, and the names of the labels resolved.\<close>

fun isStoryCall :: "'p call \<Rightarrow> bool" where
  "isStoryCall (CreateIssueAddToProject _ _ _ _ _ _ _ _) = True"
| "isStoryCall _ = False"

fun isEpicCall :: "'p call \<Rightarrow> bool" where
  "isEpicCall (CreateIssue _ _ _ _ _ _ _) = True"
| "isEpicCall _ = False"

fun labelCalls :: "'p call list \<Rightarrow> string option list" where
  "labelCalls [] = []"
| "labelCalls (CreateLabelIfNotExists _ l # cs) = l # labelCalls cs"
| "labelCalls (_ # cs) = labelCalls cs"

text \<open>An epics object without the issue identifiers.\<close>

definition bare :: "EpicEntry obj \<Rightarrow> (string \<times> EpicStory) list" where
  "bare obj = map (\<lambda>ke. (fst ke, epic (snd ke))) obj"

definition epicLabels :: "EpicEntry obj \<Rightarrow> string option set" where
  "epicLabels obj = (\<lambda>kv. label (frontmatter (epic (snd kv)))) ` set obj"

text \<open>The identifier line 92 reads for the reserved label (empty when there is none).\<close>

definition epicLabelId :: "'p state \<Rightarrow> string" where
  "epicLabelId st = (case labelsByName st (Some ''Epic'') of None \<Rightarrow> [] | Some l \<Rightarrow> l)"

text \<open>The state after the three calls that open a run (lines 37-43).\<close>

definition start :: "Config \<Rightarrow> 'p state" where
  "start cfg =
     init\<lparr>calls := [InitClient (token cfg), GetProjectInfo (owner cfg) (repo cfg),
                     GetRepositoryId (owner cfg) (repo cfg)]\<rparr>"

text \<open>The key under which line 60 stores an epic file.\<close>

definition epicKey :: "string \<times> string \<Rightarrow> string" where
  "epicKey fc = str (match_epicNumber (fst fc))"

text \<open>
  The run gets as far as the stories: the three opening calls and the epic phase end
  without an exception, the tracker answering \<open>pinfo\<close> and \<open>rid\<close>.
\<close>

definition reachesStories ::
  "'p client \<Rightarrow> (string \<Rightarrow> error + MDStory) \<Rightarrow> Config \<Rightarrow> Files \<Rightarrow> string \<Rightarrow> 'p \<Rightarrow> bool"
where
  "reachesStories cl getMDStory cfg fs rid pinfo \<longleftrightarrow>
     initClient cl [] (InitClient (token cfg)) = Inr ()
     \<and> getProjectInfo cl [InitClient (token cfg)] (GetProjectInfo (owner cfg) (repo cfg))
         = Inr (Some pinfo)
     \<and> getRepositoryId cl [InitClient (token cfg), GetProjectInfo (owner cfg) (repo cfg)]
           (GetRepositoryId (owner cfg) (repo cfg)) = Inr rid
     \<and> fst (epicPhase cl getMDStory cfg fs rid pinfo (start cfg)) = Inr ()"

text \<open>
  The label identifier of a story in the words of the specification:
  \<^verbatim>\<open>labelsByName\<close> applied to the label of the owning epic, which is the epic kept under
  the first segment of the name of the story file.
\<close>

definition spec_labelId :: "'p state \<Rightarrow> string \<Rightarrow> string option" where
  "spec_labelId st file =
     (case map_of (epics st) (fst (segments file)) of
        None \<Rightarrow> None
      | Some e \<Rightarrow> labelsByName st (label (frontmatter (epic e))))"

section \<open>A tracker and a parser to run the pipeline on\<close>

text \<open>
  A tracker that accepts every call: the identifier of a label is its name after
  \<open>L-\<close>, that of an epic issue its title after \<open>I-\<close>, that of a story issue its
  title after \<open>S-\<close>.
\<close>

definition tracker :: "unit client" where
  "tracker =
     \<lparr>initClient = (\<lambda>h c. Inr ()),
      getProjectInfo = (\<lambda>h c. Inr (Some ())),
      getRepositoryId = (\<lambda>h c. Inr ''R''),
      createLabelIfNotExists =
        (\<lambda>h c. case c of CreateLabelIfNotExists _ l \<Rightarrow> Inr (''L-'' @ str l)
                | _ \<Rightarrow> Inl (Thrown ''bad call'')),
      createIssue =
        (\<lambda>h c. case c of CreateIssue _ _ _ _ t _ _ \<Rightarrow> Inr (''I-'' @ str t)
                | _ \<Rightarrow> Inl (Thrown ''bad call'')),
      createIssueAddToProject =
        (\<lambda>h c. case c of CreateIssueAddToProject _ _ _ _ _ t _ _ \<Rightarrow> Inr (''S-'' @ t)
                | _ \<Rightarrow> Inl (Thrown ''bad call''))\<rparr>"

text \<open>A parser given by a table from file contents to records.\<close>

definition parse_table :: "(string \<times> MDStory) list \<Rightarrow> string \<Rightarrow> error + MDStory" where
  "parse_table tab content =
     (case map_of tab content of None \<Rightarrow> Inl (Thrown ''malformed'') | Some m \<Rightarrow> Inr m)"

definition md ::
  "string option \<Rightarrow> string option \<Rightarrow> string option \<Rightarrow> string option \<Rightarrow> string option
     \<Rightarrow> string \<Rightarrow> MDStory"
where
  "md t l r a b d =
     \<lparr>frontmatter = \<lparr>title = t, label = l, role = r, action = a, benefit = b\<rparr>,
      description = d\<rparr>"

definition cfg0 :: Config where
  "cfg0 = \<lparr>owner = ''o'', repo = ''r'', token = ''t''\<rparr>"

definition tab :: "(string \<times> MDStory) list" where
  "tab =
     [(''epic one'', md (Some ''Epic One'') (Some ''backend'') None None None ''d1''),
      (''epic two'', md (Some ''Epic Two'') (Some ''frontend'') None None None ''d2''),
      (''epic three'',
         md (Some ''Epic Three'') (Some ''backend'') (Some ''user'') (Some ''act'')
           (Some ''gain'') ''d3''),
      (''epic untitled'', md None (Some ''backend'') None None None ''d4''),
      (''epic role only'', md (Some ''Epic R'') (Some ''backend'') (Some ''user'') None None ''d5''),
      (''story a'', md (Some ''Story A'') (Some ''frontend'') None None None ''sa''),
      (''story b'',
         md (Some ''Story B'') (Some ''backend'') (Some ''dev'') (Some ''build'')
           (Some ''ship'') ''sb''),
      (''story untitled'', md None (Some ''backend'') None None None ''su'')]"

definition run :: "Files \<Rightarrow> (error + unit) \<times> unit state" where
  "run fs = createIssues tracker (parse_table tab) cfg0 fs"

text \<open>
  Two epics that share a label and two stories; the manifest lists the stories against
  the order of their files.
\<close>

definition fs_board :: Files where
  "fs_board =
     \<lparr>epicsDir = [(''001-one.md'', ''epic one''), (''002-three.md'', ''epic three''),
                  (''notes.txt'', ''scratch'')],
      storiesDir = [(''001-001-a.md'', ''story a''), (''001-002-b.md'', ''story b'')],
      priorityFile = Inr [''001-002'', ''001-001'']\<rparr>"

text \<open>A story whose label is that of another epic than its own.\<close>

definition fs_label :: Files where
  "fs_label =
     \<lparr>epicsDir = [(''001-one.md'', ''epic one''), (''002-two.md'', ''epic two'')],
      storiesDir = [(''001-001-a.md'', ''story a'')],
      priorityFile = Inr [''001-001'']\<rparr>"

text \<open>An epic without a title.\<close>

definition fs_untitled :: Files where
  "fs_untitled =
     \<lparr>epicsDir = [(''001-epic.md'', ''epic untitled'')],
      storiesDir = [],
      priorityFile = Inr []\<rparr>"

text \<open>Two story files with the same first two segments.\<close>

definition fs_twins :: Files where
  "fs_twins =
     \<lparr>epicsDir = [(''001-one.md'', ''epic one'')],
      storiesDir = [(''001-001-a.md'', ''story a''), (''001-001-b.md'', ''story b'')],
      priorityFile = Inr [''001-001'']\<rparr>"

text \<open>A story that is not in the manifest, after one that is.\<close>

definition fs_unlisted :: Files where
  "fs_unlisted =
     \<lparr>epicsDir = [(''001-one.md'', ''epic one'')],
      storiesDir = [(''001-001-a.md'', ''story a''), (''001-002-b.md'', ''story b'')],
      priorityFile = Inr [''001-001'']\<rparr>"

text \<open>Two stories, neither of which is in the manifest.\<close>

definition fs_both_unlisted :: Files where
  "fs_both_unlisted =
     \<lparr>epicsDir = [(''001-one.md'', ''epic one'')],
      storiesDir = [(''001-001-a.md'', ''story a''), (''001-002-b.md'', ''story b'')],
      priorityFile = Inr []\<rparr>"

text \<open>A story with neither a role nor a title, after one that has a title.\<close>

definition fs_notitle :: Files where
  "fs_notitle =
     \<lparr>epicsDir = [(''001-one.md'', ''epic one'')],
      storiesDir = [(''001-001-a.md'', ''story a''), (''001-002-u.md'', ''story untitled'')],
      priorityFile = Inr [''001-001'', ''001-002'']\<rparr>"

text \<open>A story of an epic that does not exist.\<close>

definition fs_orphan :: Files where
  "fs_orphan =
     \<lparr>epicsDir = [(''001-one.md'', ''epic one'')],
      storiesDir = [(''009-001-a.md'', ''story a'')],
      priorityFile = Inr [''009-001'']\<rparr>"

text \<open>A story whose first segment is a name that every object inherits.\<close>

definition fs_inherited :: Files where
  "fs_inherited =
     \<lparr>epicsDir = [(''001-one.md'', ''epic one'')],
      storiesDir = [(''constructor-001-a.md'', ''story a'')],
      priorityFile = Inr [''constructor-001'']\<rparr>"

text \<open>An epic file whose name has no leading digits.\<close>

definition fs_readme :: Files where
  "fs_readme =
     \<lparr>epicsDir = [(''readme.md'', ''epic one'')],
      storiesDir = [],
      priorityFile = Inr []\<rparr>"

text \<open>An epic with a role but neither action nor benefit.\<close>

definition fs_role :: Files where
  "fs_role =
     \<lparr>epicsDir = [(''001-r.md'', ''epic role only'')],
      storiesDir = [],
      priorityFile = Inr []\<rparr>"

text \<open>Two epic files with the same leading digits, and a story of that epic.\<close>

definition fs_dup :: Files where
  "fs_dup =
     \<lparr>epicsDir = [(''001-one.md'', ''epic one''), (''001-three.md'', ''epic three'')],
      storiesDir = [(''001-001-a.md'', ''story a'')],
      priorityFile = Inr [''001-001'']\<rparr>"

section \<open>Objects\<close>

lemma obj_set_keys:
  "map fst (obj_set k v obj) = (if k \<in> set (map fst obj) then map fst obj else map fst obj @ [k])"
  by (auto simp: obj_set_def intro!: map_idI split: prod.splits)

lemma obj_set_distinct: "distinct (map fst obj) \<Longrightarrow> distinct (map fst (obj_set k v obj))"
  by (simp add: obj_set_keys)

lemma map_of_replace:
  "map_of (map (\<lambda>(k', v'). if k' = k then (k', v) else (k', v')) obj) k'
     = (if k' = k then (if k \<in> fst ` set obj then Some v else None) else map_of obj k')"
  by (induction obj) (force split: prod.splits)+

lemma map_of_obj_set: "map_of (obj_set k v obj) k' = (if k' = k then Some v else map_of obj k')"
proof (cases "k \<in> set (map fst obj)")
  case True
  then show ?thesis by (simp add: obj_set_def map_of_replace)
next
  case False
  then have "map_of obj k = None" by (simp add: map_of_eq_None_iff)
  then show ?thesis using False
    by (auto simp: obj_set_def map_add_def split: option.splits)
qed

lemma obj_set_bare:
  assumes "distinct (map fst obj)" "map_of (bare obj) k = Some (epic e)"
  shows "bare (obj_set k (e\<lparr>issueId := i\<rparr>) obj) = bare obj"
proof -
  from assms(2) have kin: "k \<in> set (map fst obj)"
    by (force simp: bare_def dest!: map_of_SomeD)
  have "\<And>k' v'. (k', v') \<in> set obj \<Longrightarrow> k' = k \<Longrightarrow> epic v' = epic e"
  proof -
    fix k' v' assume a: "(k', v') \<in> set obj" "k' = k"
    have "distinct (map fst (bare obj))" using assms(1) by (simp add: bare_def comp_def)
    moreover have "(k, epic v') \<in> set (bare obj)" using a by (force simp: bare_def)
    ultimately have "map_of (bare obj) k = Some (epic v')" by simp
    with assms(2) show "epic v' = epic e" by simp
  qed
  then show ?thesis using kin
    by (auto simp: obj_set_def bare_def split: prod.splits)
qed

lemma mset_obj_entries: "mset (obj_entries obj) = mset obj"
  by (simp add: obj_entries_def)

lemma set_obj_entries: "set (obj_entries obj) = set obj"
  by (metis mset_obj_entries set_mset_mset)

lemma length_obj_entries: "length (obj_entries obj) = length obj"
  by (metis mset_obj_entries size_mset)

lemma distinct_obj_entries: "distinct (map fst obj) \<Longrightarrow> distinct (map fst (obj_entries obj))"
proof -
  have "mset (map fst (obj_entries obj)) = mset (map fst obj)"
    by (simp add: mset_obj_entries)
  then show "distinct (map fst obj) \<Longrightarrow> distinct (map fst (obj_entries obj))"
    by (metis mset_eq_imp_distinct_iff)
qed

section \<open>The record of calls of each phase\<close>

lemma invoke_eq: "invoke f c st = (r, st') \<longleftrightarrow> r = f (calls st) c \<and> st' = st\<lparr>calls := calls st @ [c]\<rparr>"
  by (auto simp: invoke_def)

lemma resolveLabels_state:
  "resolveLabels cl rid ls st = (r, st') \<Longrightarrow>
     \<exists>n\<le>length ls. calls st' = calls st @ map (CreateLabelIfNotExists rid) (take n ls)
        \<and> (r = Inr () \<longrightarrow> n = length ls)
        \<and> epics st' = epics st \<and> storiesWithEpic st' = storiesWithEpic st
        \<and> (r = Inr () \<longrightarrow> dom (labelsByName st') = dom (labelsByName st) \<union> set ls)"
proof (induction ls arbitrary: st)
  case Nil
  then show ?case by auto
next
  case (Cons l ls)
  show ?case
  proof (cases "createLabelIfNotExists cl (calls st) (CreateLabelIfNotExists rid l)")
    case (Inl e)
    with Cons.prems have "r = Inl e" "st' = st\<lparr>calls := calls st @ [CreateLabelIfNotExists rid l]\<rparr>"
      by (auto simp: invoke_def)
    then show ?thesis
      by (intro exI[of _ 1]) auto
  next
    case (Inr i)
    let ?st1 = "st\<lparr>calls := calls st @ [CreateLabelIfNotExists rid l], labelsByName := (labelsByName st)(l \<mapsto> i)\<rparr>"
    from Cons.prems Inr have "resolveLabels cl rid ls ?st1 = (r, st')"
      by (simp add: invoke_def)
    from Cons.IH[OF this] obtain n where n: "n \<le> length ls"
      "calls st' = calls ?st1 @ map (CreateLabelIfNotExists rid) (take n ls)"
      "r = Inr () \<longrightarrow> n = length ls" "epics st' = epics ?st1" "storiesWithEpic st' = storiesWithEpic ?st1"
      "r = Inr () \<longrightarrow> dom (labelsByName st') = dom (labelsByName ?st1) \<union> set ls"
      by blast
    then show ?thesis
      by (intro exI[of _ "Suc n"]) auto
  qed
qed

lemma createStories_state:
  "createStories cl rid pinfo cfg ss st = (r, st') \<Longrightarrow>
     \<exists>n\<le>length ss. st' = st\<lparr>calls := calls st @ map (storyCall rid pinfo cfg) (take n ss)\<rparr>
        \<and> (r = Inr () \<longrightarrow> n = length ss)"
proof (induction ss arbitrary: st)
  case Nil
  then show ?case by auto
next
  case (Cons s ss)
  show ?case
  proof (cases "createIssueAddToProject cl (calls st) (storyCall rid pinfo cfg s)")
    case (Inl e)
    with Cons.prems have "r = Inl e" "st' = st\<lparr>calls := calls st @ [storyCall rid pinfo cfg s]\<rparr>"
      by (auto simp: invoke_def)
    then show ?thesis
      by (intro exI[of _ 1]) auto
  next
    case (Inr i)
    let ?st1 = "st\<lparr>calls := calls st @ [storyCall rid pinfo cfg s]\<rparr>"
    from Cons.prems Inr have "createStories cl rid pinfo cfg ss ?st1 = (r, st')"
      by (simp add: invoke_def)
    from Cons.IH[OF this] obtain n where n: "n \<le> length ss"
      "st' = ?st1\<lparr>calls := calls ?st1 @ map (storyCall rid pinfo cfg) (take n ss)\<rparr>"
      "r = Inr () \<longrightarrow> n = length ss"
      by blast
    then show ?thesis
      by (intro exI[of _ "Suc n"]) auto
  qed
qed


lemma createEpics_state:
  "createEpics cl rid pinfo cfg es st = (r, st') \<Longrightarrow>
     labelsByName st' = labelsByName st \<and> storiesWithEpic st' = storiesWithEpic st
     \<and> (\<exists>n\<le>length es.
           calls st' = calls st @ map (\<lambda>ke. epicCall rid pinfo cfg (snd ke) (epicLabelId st)) (take n es)
           \<and> (r = Inr () \<longrightarrow> n = length es))"
proof (induction es arbitrary: st)
  case Nil
  then show ?case by auto
next
  case (Cons ke es)
  obtain k e where ke: "ke = (k, e)" by (cases ke)
  show ?case
  proof (cases "labelsByName st (Some ''Epic'')")
    case None
    with Cons.prems ke have "r = Inl (Error label_not_found)" "st' = st" by auto
    then show ?thesis by (auto intro!: exI[of _ 0])
  next
    case (Some lid)
    show ?thesis
    proof (cases "lid = []")
      case True
      with Cons.prems ke Some have "r = Inl (Error label_not_found)" "st' = st" by auto
      then show ?thesis by (auto intro!: exI[of _ 0])
    next
      case False
      have lid: "epicLabelId st = lid" using Some by (simp add: epicLabelId_def)
      show ?thesis
      proof (cases "createIssue cl (calls st) (epicCall rid pinfo cfg e lid)")
        case (Inl err)
        with Cons.prems ke Some False
        have "r = Inl err" "st' = st\<lparr>calls := calls st @ [epicCall rid pinfo cfg e lid]\<rparr>"
          by (auto simp: invoke_def)
        then show ?thesis using ke lid
          by (auto intro!: exI[of _ 1])
      next
        case (Inr i)
        let ?st1 = "st\<lparr>calls := calls st @ [epicCall rid pinfo cfg e lid],
                        epics := obj_set k (e\<lparr>issueId := i\<rparr>) (epics st)\<rparr>"
        from Cons.prems ke Some False Inr
        have run: "createEpics cl rid pinfo cfg es ?st1 = (r, st')"
          by (simp add: invoke_def)
        have lid1: "epicLabelId ?st1 = lid" using Some by (simp add: epicLabelId_def)
        from Cons.IH[OF run] obtain n where n:
          "labelsByName st' = labelsByName ?st1" "storiesWithEpic st' = storiesWithEpic ?st1"
          "n \<le> length es"
          "calls st' = calls ?st1 @ map (\<lambda>ke. epicCall rid pinfo cfg (snd ke) (epicLabelId ?st1)) (take n es)"
          "r = Inr () \<longrightarrow> n = length es"
          by blast
        then show ?thesis using ke lid lid1
          by (intro conjI exI[of _ "Suc n"]) auto
      qed
    qed
  qed
qed

lemma set_dedupe: "set (dedupe seen xs) = set xs - set seen"
  by (induction seen xs rule: dedupe.induct) auto

lemma distinct_dedupe: "distinct (dedupe seen xs)"
  by (induction seen xs rule: dedupe.induct) (auto simp: set_dedupe)

lemma epicLabels_bare: "epicLabels obj = (\<lambda>ke. label (frontmatter (snd ke))) ` set (bare obj)"
  by (force simp: epicLabels_def bare_def image_iff)

lemma set_labels: "set (labels obj) = epicLabels obj \<union> {Some ''Epic''}"
  by (auto simp: labels_def set_dedupe obj_values_def set_obj_entries epicLabels_def image_iff)

lemma distinct_labels: "distinct (labels obj)"
  by (simp add: labels_def distinct_dedupe)

lemma readEpics_keys:
  "readEpics p files obj = Inr obj' \<Longrightarrow> distinct (map fst obj) \<Longrightarrow>
     distinct (map fst obj') \<and> set (map fst obj') = set (map fst obj) \<union> epicKey ` set files"
proof (induction files arbitrary: obj)
  case Nil
  then show ?case by simp
next
  case (Cons fc files)
  obtain name content where fc: "fc = (name, content)" by (cases fc)
  from Cons.prems fc obtain m where m: "p content = Inr m"
    "readEpics p files (obj_set (str (match_epicNumber name)) (newEpic m) obj) = Inr obj'"
    by (auto split: sum.splits)
  from Cons.IH[OF m(2)] Cons.prems(2) fc show ?case
    by (auto simp: obj_set_distinct obj_set_keys epicKey_def)
qed

lemma readEpics_fails:
  "readEpics p files obj = Inl e \<Longrightarrow> \<exists>fc\<in>set files. p (snd fc) = Inl e"
proof (induction files arbitrary: obj)
  case Nil
  then show ?case by simp
next
  case (Cons fc files)
  obtain name content where fc: "fc = (name, content)" by (cases fc)
  with Cons show ?case
    by (cases "p content") auto
qed

lemma createEpics_bare:
  "createEpics cl rid pinfo cfg es st = (r, st') \<Longrightarrow> distinct (map fst (epics st)) \<Longrightarrow>
     \<forall>ke\<in>set es. map_of (bare (epics st)) (fst ke) = Some (epic (snd ke)) \<Longrightarrow>
     bare (epics st') = bare (epics st)"
proof (induction es arbitrary: st)
  case Nil
  then show ?case by simp
next
  case (Cons ke es)
  obtain k e where ke: "ke = (k, e)" by (cases ke)
  show ?case
  proof (cases "\<exists>lid i. labelsByName st (Some ''Epic'') = Some lid \<and> lid \<noteq> []
                  \<and> createIssue cl (calls st) (epicCall rid pinfo cfg e lid) = Inr i")
    case False
    with Cons.prems(1) ke have "epics st' = epics st"
      by (auto simp: invoke_def split: option.splits if_splits sum.splits)
    then show ?thesis by simp
  next
    case True
    then obtain lid i where li: "labelsByName st (Some ''Epic'') = Some lid" "lid \<noteq> []"
      "createIssue cl (calls st) (epicCall rid pinfo cfg e lid) = Inr i" by blast
    let ?st1 = "st\<lparr>calls := calls st @ [epicCall rid pinfo cfg e lid],
                    epics := obj_set k (e\<lparr>issueId := i\<rparr>) (epics st)\<rparr>"
    from Cons.prems(1) ke li have run: "createEpics cl rid pinfo cfg es ?st1 = (r, st')"
      by (simp add: invoke_def)
    have b: "bare (epics ?st1) = bare (epics st)"
      using obj_set_bare[OF Cons.prems(2), of k e i] Cons.prems(3) ke by simp
    have d: "distinct (map fst (epics ?st1))"
      using Cons.prems(2) by (simp add: obj_set_distinct)
    have "bare (epics st') = bare (epics ?st1)"
      using Cons.IH[OF run d] b Cons.prems(3) by simp
    with b show ?thesis by simp
  qed
qed

lemma mkStory_cong:
  assumes "epics st = epics st'" "labelsByName st = labelsByName st'"
  shows "mkStory p order st = mkStory p order st'"
proof
  fix fc
  show "mkStory p order st fc = mkStory p order st' fc"
    unfolding mkStory_def assms ..
qed

lemma storyPhase_cases:
  assumes "storyPhase cl p cfg fs rid pinfo st3 = (r, st)"
  obtains (manifest) e where "priorityFile fs = Inl e" "r = Inl e" "st = st3"
  | (invalid) order e where "priorityFile fs = Inr order"
      "mapE (mkStory p order st3) (mdFiles (storiesDir fs)) = Inl e" "r = Inl e" "st = st3"
  | (created) order ss n where "priorityFile fs = Inr order"
      "mapE (mkStory p order st3) (mdFiles (storiesDir fs)) = Inr ss" "n \<le> length ss"
      "st = st3\<lparr>storiesWithEpic := sort_key priority ss,
                calls := calls st3 @ map (storyCall rid pinfo cfg) (take n (sort_key priority ss))\<rparr>"
      "r = Inr () \<longrightarrow> n = length ss"
proof (cases "priorityFile fs")
  case (Inl e)
  with assms have "r = Inl e" "st = st3" by (simp_all add: storyPhase_def)
  with Inl show ?thesis by (rule manifest)
next
  case (Inr order)
  show ?thesis
  proof (cases "mapE (mkStory p order st3) (mdFiles (storiesDir fs))")
    case (Inl e)
    with assms Inr have "r = Inl e" "st = st3" by (simp_all add: storyPhase_def)
    with Inr Inl show ?thesis by (rule invalid)
  next
    case ss: (Inr ss)
    let ?s = "sort_key priority ss"
    from assms Inr ss have "createStories cl rid pinfo cfg ?s (st3\<lparr>storiesWithEpic := ?s\<rparr>) = (r, st)"
      by (simp add: storyPhase_def)
    from createStories_state[OF this] obtain n where n: "n \<le> length ?s"
      "st = st3\<lparr>storiesWithEpic := ?s\<rparr>\<lparr>calls := calls (st3\<lparr>storiesWithEpic := ?s\<rparr>)
               @ map (storyCall rid pinfo cfg) (take n ?s)\<rparr>"
      "r = Inr () \<longrightarrow> n = length ?s" by blast
    have 1: "n \<le> length ss" using n(1) by simp
    have 2: "st = st3\<lparr>storiesWithEpic := ?s,
                calls := calls st3 @ map (storyCall rid pinfo cfg) (take n ?s)\<rparr>"
      using n(2) by simp
    have 3: "r = Inr () \<longrightarrow> n = length ss" using n(3) by simp
    from Inr ss 1 2 3 show ?thesis by (rule created)
  qed
qed

lemma createIssues_cases:
  assumes "createIssues cl p cfg fs = (r, st)"
  obtains (early) e where "r = Inl e" "epics st = []" "storiesWithEpic st = []"
      "labelsByName st = Map.empty" "labelCalls (calls st) = []"
      "filter isEpicCall (calls st) = []" "filter isStoryCall (calls st) = []"
  | (epic) rid pinfo e where "epicPhase cl p cfg fs rid pinfo (start cfg) = (Inl e, st)" "r = Inl e"
  | (story) rid pinfo st3 where "epicPhase cl p cfg fs rid pinfo (start cfg) = (Inr (), st3)"
      "storyPhase cl p cfg fs rid pinfo st3 = (r, st)"
proof (cases "initClient cl [] (InitClient (token cfg))")
  case (Inl e)
  with assms have "r = Inl e" "st = init\<lparr>calls := [InitClient (token cfg)]\<rparr>"
    by (auto simp: createIssues_def invoke_def init_def)
  then have "r = Inl e" "epics st = []" "storiesWithEpic st = []"
      "labelsByName st = Map.empty" "labelCalls (calls st) = []"
      "filter isEpicCall (calls st) = []" "filter isStoryCall (calls st) = []"
    by (simp_all add: init_def)
  then show ?thesis by (rule early)
next
  case i: (Inr u)
  show ?thesis
  proof (cases "getProjectInfo cl [InitClient (token cfg)] (GetProjectInfo (owner cfg) (repo cfg))")
    case (Inl e)
    with assms i have "r = Inl e"
      "st = init\<lparr>calls := [InitClient (token cfg), GetProjectInfo (owner cfg) (repo cfg)]\<rparr>"
      by (auto simp: createIssues_def invoke_def init_def)
    then have "r = Inl e" "epics st = []" "storiesWithEpic st = []"
        "labelsByName st = Map.empty" "labelCalls (calls st) = []"
        "filter isEpicCall (calls st) = []" "filter isStoryCall (calls st) = []"
      by (simp_all add: init_def)
    then show ?thesis by (rule early)
  next
    case pi: (Inr po)
    show ?thesis
    proof (cases po)
      case None
      with assms i pi have "r = Inl (Error ''Could not find project information'')"
        "st = init\<lparr>calls := [InitClient (token cfg), GetProjectInfo (owner cfg) (repo cfg)]\<rparr>"
        by (auto simp: createIssues_def invoke_def init_def)
      then have "r = Inl (Error ''Could not find project information'')" "epics st = []"
          "storiesWithEpic st = []"
          "labelsByName st = Map.empty" "labelCalls (calls st) = []"
          "filter isEpicCall (calls st) = []" "filter isStoryCall (calls st) = []"
        by (simp_all add: init_def)
      then show ?thesis by (rule early)
    next
      case (Some pinfo)
      show ?thesis
      proof (cases "getRepositoryId cl [InitClient (token cfg), GetProjectInfo (owner cfg) (repo cfg)]
                      (GetRepositoryId (owner cfg) (repo cfg))")
        case (Inl e)
        with assms i pi Some have "r = Inl e" "st = start cfg"
          by (auto simp: createIssues_def invoke_def init_def start_def)
        then have "r = Inl e" "epics st = []" "storiesWithEpic st = []"
            "labelsByName st = Map.empty" "labelCalls (calls st) = []"
            "filter isEpicCall (calls st) = []" "filter isStoryCall (calls st) = []"
          by (simp_all add: init_def start_def)
        then show ?thesis by (rule early)
      next
        case (Inr rid)
        with assms i pi Some have run:
          "(case epicPhase cl p cfg fs rid pinfo (start cfg) of
              (Inl e, st3) \<Rightarrow> (Inl e, st3)
            | (Inr _, st3) \<Rightarrow> storyPhase cl p cfg fs rid pinfo st3) = (r, st)"
          by (simp add: createIssues_def invoke_def init_def start_def)
        obtain r3 st3 where e3: "epicPhase cl p cfg fs rid pinfo (start cfg) = (r3, st3)"
          by (cases "epicPhase cl p cfg fs rid pinfo (start cfg)")
        show ?thesis
        proof (cases r3)
          case (Inl e)
          with run e3 have "epicPhase cl p cfg fs rid pinfo (start cfg) = (Inl e, st)" "r = Inl e"
            by simp_all
          then show ?thesis by (rule epic)
        next
          case (Inr u)
          with run e3 have "epicPhase cl p cfg fs rid pinfo (start cfg) = (Inr (), st3)"
            "storyPhase cl p cfg fs rid pinfo st3 = (r, st)"
            by simp_all
          then show ?thesis by (rule story)
        qed
      qed
    qed
  qed
qed

lemma map_of_bare:
  "distinct (map fst obj) \<Longrightarrow> ke \<in> set obj \<Longrightarrow> map_of (bare obj) (fst ke) = Some (epic (snd ke))"
proof -
  assume d: "distinct (map fst obj)" and m: "ke \<in> set obj"
  have "distinct (map fst (bare obj))" using d by (simp add: bare_def comp_def)
  moreover have "(fst ke, epic (snd ke)) \<in> set (bare obj)" using m by (force simp: bare_def)
  ultimately show ?thesis by simp
qed

lemma epicLabelId_cong: "labelsByName st = labelsByName st' \<Longrightarrow> epicLabelId st = epicLabelId st'"
  by (simp add: epicLabelId_def)

lemma epicPhase_cases:
  assumes "epicPhase cl p cfg fs rid pinfo st2 = (r, st3)"
  obtains (parse) e where "readEpics p (mdFiles (epicsDir fs)) [] = Inl e" "r = Inl e" "st3 = st2"
  | (read) obj n m where "readEpics p (mdFiles (epicsDir fs)) [] = Inr obj"
      "bare (epics st3) = bare obj" "distinct (map fst obj)"
      "storiesWithEpic st3 = storiesWithEpic st2"
      "n \<le> length (labels obj)" "m \<le> length obj"
      "calls st3 = calls st2 @ map (CreateLabelIfNotExists rid) (take n (labels obj))
          @ map (\<lambda>ke. epicCall rid pinfo cfg (snd ke) (epicLabelId st3)) (take m (obj_entries obj))"
      "r = Inr () \<or> m > 0 \<longrightarrow> n = length (labels obj)
          \<and> dom (labelsByName st3) = dom (labelsByName st2) \<union> set (labels obj)"
      "r = Inr () \<longrightarrow> m = length obj"
proof (cases "readEpics p (mdFiles (epicsDir fs)) []")
  case (Inl e)
  with assms have "r = Inl e" "st3 = st2" by (simp_all add: epicPhase_def)
  with Inl show ?thesis by (rule parse)
next
  case (Inr obj)
  have d: "distinct (map fst obj)" using readEpics_keys[OF Inr] by simp
  obtain r1 st1 where rl: "resolveLabels cl rid (labels obj) (st2\<lparr>epics := obj\<rparr>) = (r1, st1)"
    by (cases "resolveLabels cl rid (labels obj) (st2\<lparr>epics := obj\<rparr>)")
  from resolveLabels_state[OF rl] obtain n where n: "n \<le> length (labels obj)"
    "calls st1 = calls st2 @ map (CreateLabelIfNotExists rid) (take n (labels obj))"
    "r1 = Inr () \<longrightarrow> n = length (labels obj)" "epics st1 = obj"
    "storiesWithEpic st1 = storiesWithEpic st2"
    "r1 = Inr () \<longrightarrow> dom (labelsByName st1) = dom (labelsByName st2) \<union> set (labels obj)"
    by auto
  show ?thesis
  proof (cases r1)
    case (Inl e)
    with assms Inr rl have rs: "r = Inl e" "st3 = st1" by (simp_all add: epicPhase_def)
    have 1: "bare (epics st3) = bare obj" using rs n by simp
    have 2: "storiesWithEpic st3 = storiesWithEpic st2" using rs n by simp
    have 3: "(0::nat) \<le> length obj" by simp
    have 4: "calls st3 = calls st2 @ map (CreateLabelIfNotExists rid) (take n (labels obj))
          @ map (\<lambda>ke. epicCall rid pinfo cfg (snd ke) (epicLabelId st3)) (take 0 (obj_entries obj))"
      using rs n by simp
    have 5: "r = Inr () \<or> (0::nat) > 0 \<longrightarrow> n = length (labels obj)
          \<and> dom (labelsByName st3) = dom (labelsByName st2) \<union> set (labels obj)"
      using rs by simp
    have 6: "r = Inr () \<longrightarrow> 0 = length obj" using rs by simp
    from Inr 1 d 2 n(1) 3 4 5 6 show ?thesis by (rule read)
  next
    case r1: (Inr u)
    with assms Inr rl n(4) have ce: "createEpics cl rid pinfo cfg (obj_entries obj) st1 = (r, st3)"
      by (simp add: epicPhase_def)
    from createEpics_state[OF ce] obtain m where m:
      "labelsByName st3 = labelsByName st1" "storiesWithEpic st3 = storiesWithEpic st1"
      "m \<le> length (obj_entries obj)"
      "calls st3 = calls st1 @ map (\<lambda>ke. epicCall rid pinfo cfg (snd ke) (epicLabelId st1)) (take m (obj_entries obj))"
      "r = Inr () \<longrightarrow> m = length (obj_entries obj)"
      by auto
    have "bare (epics st3) = bare (epics st1)"
    proof (rule createEpics_bare[OF ce])
      show "distinct (map fst (epics st1))" using d n(4) by simp
      show "\<forall>ke\<in>set (obj_entries obj). map_of (bare (epics st1)) (fst ke) = Some (epic (snd ke))"
        using d n(4) by (simp add: set_obj_entries map_of_bare)
    qed
    then have 1: "bare (epics st3) = bare obj" using n(4) by simp
    have 2: "storiesWithEpic st3 = storiesWithEpic st2" using m(2) n(5) by simp
    have 3: "m \<le> length obj" using m(3) by (simp add: length_obj_entries)
    have 4: "calls st3 = calls st2 @ map (CreateLabelIfNotExists rid) (take n (labels obj))
          @ map (\<lambda>ke. epicCall rid pinfo cfg (snd ke) (epicLabelId st3)) (take m (obj_entries obj))"
      using m(4) n(2) epicLabelId_cong[OF m(1)] by simp
    have 5: "r = Inr () \<or> m > 0 \<longrightarrow> n = length (labels obj)
          \<and> dom (labelsByName st3) = dom (labelsByName st2) \<union> set (labels obj)"
      using n(3,6) r1 m(1) by simp
    have 6: "r = Inr () \<longrightarrow> m = length obj" using m(5) by (simp add: length_obj_entries)
    from Inr 1 d 2 n(1) 3 4 5 6 show ?thesis by (rule read)
  qed
qed

lemma labelCalls_append: "labelCalls (xs @ ys) = labelCalls xs @ labelCalls ys"
  by (induction xs rule: labelCalls.induct) auto

lemma labelCalls_labels: "labelCalls (map (CreateLabelIfNotExists rid) ls) = ls"
  by (induction ls) auto

lemma labelCalls_epicCalls: "labelCalls (map (\<lambda>ke. epicCall rid pinfo cfg (f ke) l) es) = []"
  by (induction es) (auto simp: epicCall_def)

lemma labelCalls_storyCalls: "labelCalls (map (storyCall rid pinfo cfg) ss) = []"
  by (induction ss) (auto simp: storyCall_def)

lemma labelCalls_start: "labelCalls (calls (start cfg)) = []"
  by (simp add: start_def init_def)

lemma filter_labelCalls [simp]:
  "filter isEpicCall (map (CreateLabelIfNotExists rid) ls) = []"
  "filter isStoryCall (map (CreateLabelIfNotExists rid) ls) = []"
  by (induction ls) simp_all

lemma filter_epicCalls [simp]:
  "filter isEpicCall (map (\<lambda>ke. epicCall rid pinfo cfg (f ke) l) es) = map (\<lambda>ke. epicCall rid pinfo cfg (f ke) l) es"
  "filter isStoryCall (map (\<lambda>ke. epicCall rid pinfo cfg (f ke) l) es) = []"
  by (induction es) (simp_all add: epicCall_def)

lemma filter_storyCalls [simp]:
  "filter isEpicCall (map (storyCall rid pinfo cfg) ss) = []"
  "filter isStoryCall (map (storyCall rid pinfo cfg) ss) = map (storyCall rid pinfo cfg) ss"
  by (induction ss) (simp_all add: storyCall_def)

lemma filter_start [simp]:
  "filter isEpicCall (calls (start cfg)) = []"
  "filter isStoryCall (calls (start cfg)) = []"
  by (simp_all add: start_def init_def)

lemma epicLabels_cong: "bare obj = bare obj' \<Longrightarrow> epicLabels obj = epicLabels obj'"
  by (simp add: epicLabels_bare)

lemma start_fields [simp]:
  "epics (start cfg) = []" "storiesWithEpic (start cfg) = []"
  "labelsByName (start cfg) = Map.empty"
  by (simp_all add: start_def init_def)

lemma epicPhase_labels:
  assumes "epicPhase cl p cfg fs rid pinfo (start cfg) = (r, st3)"
  shows "distinct (labelCalls (calls st3))
    \<and> set (labelCalls (calls st3)) \<subseteq> epicLabels (epics st3) \<union> {Some ''Epic''}
    \<and> (r = Inr () \<or> (\<exists>c\<in>set (calls st3). isEpicCall c) \<longrightarrow>
           set (labelCalls (calls st3)) = epicLabels (epics st3) \<union> {Some ''Epic''}
           \<and> dom (labelsByName st3) = set (labelCalls (calls st3)))
    \<and> filter isStoryCall (calls st3) = [] \<and> storiesWithEpic st3 = []"
    using assms
proof (cases rule: epicPhase_cases)
    case (parse e)
    have "\<not> (\<exists>c\<in>set (calls (start cfg)). isEpicCall c)"
      by (simp add: start_def init_def)
    with parse show ?thesis by (simp add: labelCalls_start)
  next
    case (read obj n m)
    have lc: "labelCalls (calls st3) = take n (labels obj)"
      using read(7) by (simp add: labelCalls_append labelCalls_start labelCalls_labels labelCalls_epicCalls)
    have el: "epicLabels (epics st3) = epicLabels obj"
      using read(2) by (rule epicLabels_cong)
    have 1: "distinct (labelCalls (calls st3))"
      by (simp add: lc distinct_labels)
    have 2: "set (labelCalls (calls st3)) \<subseteq> epicLabels (epics st3) \<union> {Some ''Epic''}"
      using set_take_subset[of n "labels obj"] by (simp add: lc el set_labels)
    have fe: "filter isEpicCall (calls st3)
        = map (\<lambda>ke. epicCall rid pinfo cfg (snd ke) (epicLabelId st3)) (take m (obj_entries obj))"
      using read(7) by simp
    have 3: "r = Inr () \<or> (\<exists>c\<in>set (calls st3). isEpicCall c) \<longrightarrow>
           set (labelCalls (calls st3)) = epicLabels (epics st3) \<union> {Some ''Epic''}
           \<and> dom (labelsByName st3) = set (labelCalls (calls st3))"
    proof
      assume a: "r = Inr () \<or> (\<exists>c\<in>set (calls st3). isEpicCall c)"
      have "r = Inr () \<or> m > 0"
      proof (cases "r = Inr ()")
        case False
        with a have "filter isEpicCall (calls st3) \<noteq> []" by (simp add: filter_empty_conv)
        then have "m > 0" unfolding fe by (cases m) auto
        then show ?thesis ..
      qed simp
      with read(8) have "n = length (labels obj)"
        "dom (labelsByName st3) = set (labels obj)" by simp_all
      then show "set (labelCalls (calls st3)) = epicLabels (epics st3) \<union> {Some ''Epic''}
           \<and> dom (labelsByName st3) = set (labelCalls (calls st3))"
        by (simp add: lc el set_labels)
    qed
    have 4: "filter isStoryCall (calls st3) = []" using read(7) by simp
    have 5: "storiesWithEpic st3 = []" using read(4) by simp
    from 1 2 3 4 5 show ?thesis by blast
  qed

lemma storyPhase_frame:
  assumes "storyPhase cl p cfg fs rid pinfo st3 = (r, st)"
  shows "epics st = epics st3 \<and> labelsByName st = labelsByName st3
    \<and> labelCalls (calls st) = labelCalls (calls st3)
    \<and> filter isEpicCall (calls st) = filter isEpicCall (calls st3)"
  using assms
proof (cases rule: storyPhase_cases)
  case (created order ss n)
  then show ?thesis by (simp add: labelCalls_append labelCalls_storyCalls)
qed simp_all

lemma createIssues_reaches:
  assumes "reachesStories cl p cfg fs rid pinfo"
  shows "createIssues cl p cfg fs
           = storyPhase cl p cfg fs rid pinfo (snd (epicPhase cl p cfg fs rid pinfo (start cfg)))"
proof -
  obtain r3 st3 where e: "epicPhase cl p cfg fs rid pinfo (start cfg) = (r3, st3)"
    by (cases "epicPhase cl p cfg fs rid pinfo (start cfg)")
  from assms have a: "initClient cl [] (InitClient (token cfg)) = Inr ()"
    "getProjectInfo cl [InitClient (token cfg)] (GetProjectInfo (owner cfg) (repo cfg))
         = Inr (Some pinfo)"
    "getRepositoryId cl [InitClient (token cfg), GetProjectInfo (owner cfg) (repo cfg)]
           (GetRepositoryId (owner cfg) (repo cfg)) = Inr rid"
    and f: "fst (epicPhase cl p cfg fs rid pinfo (start cfg)) = Inr ()"
    unfolding reachesStories_def by blast+
  have r3: "r3 = Inr ()" using f unfolding e by simp
  have "createIssues cl p cfg fs =
     (case epicPhase cl p cfg fs rid pinfo (start cfg) of
        (Inl e, st3) \<Rightarrow> (Inl e, st3)
      | (Inr _, st3) \<Rightarrow> storyPhase cl p cfg fs rid pinfo st3)"
    using a by (simp add: createIssues_def invoke_def init_def start_def)
  then show ?thesis unfolding e r3 by simp
qed

lemma indexOf_ge: "- 1 \<le> indexOf xs x"
proof (induction xs)
  case Nil
  show ?case by simp
next
  case (Cons y ys)
  then show ?case by (cases "indexOf ys x = - 1") (simp_all add: Let_def)
qed

lemma indexOf_miss: "indexOf xs x = - 1 \<longleftrightarrow> x \<notin> set xs"
proof (induction xs)
  case Nil
  show ?case by simp
next
  case (Cons y ys)
  have ge: "- 1 \<le> indexOf ys x" by (rule indexOf_ge)
  show ?case
  proof (cases "y = x")
    case True
    then show ?thesis by simp
  next
    case False
    show ?thesis
    proof (cases "indexOf ys x = - 1")
      case True
      with False Cons show ?thesis by (simp add: Let_def)
    next
      case ne: False
      with ge have "indexOf ys x + 1 \<noteq> - 1" by linarith
      with False ne Cons show ?thesis by (simp add: Let_def)
    qed
  qed
qed

lemma indexOf_nth:
  "x \<in> set xs \<Longrightarrow> 0 \<le> indexOf xs x \<and> nat (indexOf xs x) < length xs \<and> xs ! nat (indexOf xs x) = x"
proof (induction xs)
  case Nil
  then show ?case by simp
next
  case (Cons y ys)
  show ?case
  proof (cases "y = x")
    case True
    then show ?thesis by simp
  next
    case False
    with Cons.prems have m: "x \<in> set ys" by simp
    then have ne: "indexOf ys x \<noteq> - 1" by (simp add: indexOf_miss)
    from Cons.IH[OF m] have ih: "0 \<le> indexOf ys x" "nat (indexOf ys x) < length ys"
      "ys ! nat (indexOf ys x) = x" by blast+
    have v: "indexOf (y # ys) x = indexOf ys x + 1" using False ne by (simp add: Let_def)
    have n: "nat (indexOf ys x + 1) = Suc (nat (indexOf ys x))" using ih(1) by simp
    show ?thesis unfolding v n using ih by simp
  qed
qed

lemma indexOf_inj: "x \<in> set xs \<Longrightarrow> indexOf xs x = indexOf xs y \<Longrightarrow> x = y"
proof -
  assume x: "x \<in> set xs" and e: "indexOf xs x = indexOf xs y"
  have "indexOf xs x \<noteq> - 1" using x by (simp add: indexOf_miss)
  then have "indexOf xs y \<noteq> - 1" unfolding e .
  then have y: "y \<in> set xs" by (simp add: indexOf_miss)
  have "x = xs ! nat (indexOf xs x)" using indexOf_nth[OF x] by simp
  also have "\<dots> = xs ! nat (indexOf xs y)" unfolding e ..
  also have "\<dots> = y" using indexOf_nth[OF y] by blast
  finally show "x = y" .
qed

lemma mapE_Inr: "mapE f xs = Inr ys \<Longrightarrow> list_all2 (\<lambda>x y. f x = Inr y) xs ys"
proof (induction xs arbitrary: ys)
  case Nil
  then show ?case by simp
next
  case (Cons x xs)
  then show ?case by (auto split: sum.splits)
qed

lemma mapE_stops: "mapE f pre = Inr ys \<Longrightarrow> f x = Inl e \<Longrightarrow> mapE f (pre @ x # post) = Inl e"
proof (induction pre arbitrary: ys)
  case Nil
  then show ?case by simp
next
  case (Cons a pre)
  then show ?case by (auto split: sum.splits)
qed

lemma mkStory_Inr:
  assumes "mkStory p order st (name, content) = Inr s"
  obtains m where "p content = Inr m" "storyId name \<in> set order"
    "truthy (storyTitle (frontmatter m))"
    "frontmatter s = frontmatter m" "description s = description m"
    "story_title s = str (storyTitle (frontmatter m))"
    "priority s = indexOf order (storyId name) + 1"
    "epic_labelId s = labelsByName st (label (frontmatter m))"
    "epic_issueId_of (epics st) (fst (segments name)) = Inr (epic_issueId s)"
proof (cases "p content")
  case (Inl e)
  with assms show ?thesis by (simp add: mkStory_def)
next
  case (Inr m)
  show ?thesis
  proof (cases "indexOf order (storyId name) = - 1")
    case True
    with assms Inr show ?thesis by (simp add: mkStory_def)
  next
    case ne: False
    then have 2: "storyId name \<in> set order" by (simp add: indexOf_miss)
    show ?thesis
    proof (cases "truthy (storyTitle (frontmatter m))")
      case False
      with assms Inr ne show ?thesis by (simp add: mkStory_def Let_def)
    next
      case t: True
      show ?thesis
      proof (cases "epic_issueId_of (epics st) (fst (segments name))")
        case (Inl e)
        with assms Inr ne t show ?thesis by (simp add: mkStory_def Let_def)
      next
        case par: (Inr parent)
        with assms Inr ne t have s: "s = \<lparr>frontmatter = frontmatter m, description = description m,
             story_title = str (storyTitle (frontmatter m)),
             priority = indexOf order (storyId name) + 1,
             epic_labelId = labelsByName st (label (frontmatter m)),
             epic_issueId = parent\<rparr>"
          by (simp add: mkStory_def Let_def)
        have 4: "frontmatter s = frontmatter m" by (subst s) simp
        have 5: "description s = description m" by (subst s) simp
        have 6: "story_title s = str (storyTitle (frontmatter m))" by (subst s) simp
        have 7: "priority s = indexOf order (storyId name) + 1" by (subst s) simp
        have 8: "epic_labelId s = labelsByName st (label (frontmatter m))" by (subst s) simp
        have "epic_issueId s = parent" by (subst s) simp
        then have 9: "epic_issueId_of (epics st) (fst (segments name)) = Inr (epic_issueId s)"
          using par by simp
        from Inr 2 t 4 5 6 7 8 9 show ?thesis by (rule that)
      qed
    qed
  qed
qed

lemma createIssues_stories:
  assumes "createIssues cl p cfg fs = (r, st)"
  obtains (aborted) e where "r = Inl e" "storiesWithEpic st = []" "filter isStoryCall (calls st) = []"
  | (mapped) order ss rid pinfo n where "priorityFile fs = Inr order"
      "mapE (mkStory p order st) (mdFiles (storiesDir fs)) = Inr ss"
      "storiesWithEpic st = sort_key priority ss" "n \<le> length ss"
      "filter isStoryCall (calls st) = map (storyCall rid pinfo cfg) (take n (sort_key priority ss))"
      "r = Inr () \<longrightarrow> n = length ss"
  using assms
proof (cases rule: createIssues_cases)
  case (early e)
  from early(1,3,7) show ?thesis by (rule aborted)
next
  case (epic rid pinfo e)
  note l = epicPhase_labels[OF epic(1)]
  have "storiesWithEpic st = []" using l by (elim conjE)
  moreover have "filter isStoryCall (calls st) = []" using l by (elim conjE)
  ultimately show ?thesis using epic(2) aborted by blast
next
  case (story rid pinfo st3)
  note l = epicPhase_labels[OF story(1)]
  have z: "storiesWithEpic st3 = []" "filter isStoryCall (calls st3) = []"
    using l by blast+
  from story(2) show ?thesis
  proof (cases rule: storyPhase_cases)
    case (manifest e)
    have "storiesWithEpic st = []" "filter isStoryCall (calls st) = []" 
      unfolding manifest(3) by (rule z)+
    with manifest(2) show ?thesis by (rule aborted)
  next
    case (invalid order e)
    have "storiesWithEpic st = []" "filter isStoryCall (calls st) = []" 
      unfolding invalid(4) by (rule z)+
    with invalid(3) show ?thesis by (rule aborted)
  next
    case (created order ss n)
    have c: "mkStory p order st = mkStory p order st3"
      by (rule mkStory_cong) (simp_all add: created(4))
    have 2: "mapE (mkStory p order st) (mdFiles (storiesDir fs)) = Inr ss"
      unfolding c by (rule created(2))
    have 3: "storiesWithEpic st = sort_key priority ss" by (simp add: created(4))
    have 5: "filter isStoryCall (calls st) = map (storyCall rid pinfo cfg) (take n (sort_key priority ss))"
      using z(2) by (simp add: created(4))
    from created(1) 2 3 created(3) 5 created(5) show ?thesis by (rule mapped)
  qed
qed

lemma mapE_Inr_set:
  assumes "mapE f xs = Inr ys" "y \<in> set ys"
  shows "\<exists>x\<in>set xs. f x = Inr y"
proof -
  from assms(2) obtain i where i: "i < length ys" "ys ! i = y" by (auto simp: in_set_conv_nth)
  from mapE_Inr[OF assms(1)] have l: "length xs = length ys" "\<forall>j<length xs. f (xs ! j) = Inr (ys ! j)"
    by (simp_all add: list_all2_conv_all_nth)
  with i have "xs ! i \<in> set xs" "f (xs ! i) = Inr y" by auto
  then show ?thesis by blast
qed

lemma mapped_story_label:
  assumes "mapE (mkStory p order st) files = Inr ss" "s \<in> set ss"
  shows "epic_labelId s = labelsByName st (label (frontmatter s))"
proof -
  from mapE_Inr_set[OF assms] obtain fc where fc: "fc \<in> set files" "mkStory p order st fc = Inr s"
    by blast
  obtain name content where nc: "fc = (name, content)" by (cases fc)
  from fc(2)[unfolded nc] show ?thesis
  proof (rule mkStory_Inr)
    fix m assume "frontmatter s = frontmatter m"
      "epic_labelId s = labelsByName st (label (frontmatter m))"
    then show ?thesis by simp
  qed
qed

lemma mapped_priorities:
  assumes "mapE (mkStory p order st) files = Inr ss"
  shows "list_all2 (\<lambda>fc s. storyId (fst fc) \<in> set order
            \<and> priority s = indexOf order (storyId (fst fc)) + 1) files ss"
proof (rule list_all2_mono[OF mapE_Inr[OF assms]])
  fix fc s assume a: "mkStory p order st fc = Inr s"
  obtain name content where nc: "fc = (name, content)" by (cases fc)
  from a[unfolded nc] show "storyId (fst fc) \<in> set order
            \<and> priority s = indexOf order (storyId (fst fc)) + 1"
  proof (rule mkStory_Inr)
    fix m assume "storyId name \<in> set order" "priority s = indexOf order (storyId name) + 1"
    then show ?thesis by (simp add: nc)
  qed
qed

lemma distinct_priorities:
  assumes "list_all2 (\<lambda>fc s. storyId (fst fc) \<in> set order
            \<and> priority s = indexOf order (storyId (fst fc)) + 1) files ss"
    and "distinct (map (\<lambda>fc. storyId (fst fc)) files)"
  shows "distinct (map priority ss)"
proof -
  let ?ids = "map (\<lambda>fc. storyId (fst fc)) files"
  let ?g = "\<lambda>i. indexOf order i + 1"
  have len: "length files = length ss" using assms(1) by (rule list_all2_lengthD)
  have nth: "\<And>j. j < length files \<Longrightarrow> storyId (fst (files ! j)) \<in> set order
      \<and> priority (ss ! j) = ?g (storyId (fst (files ! j)))"
    using assms(1) by (simp add: list_all2_conv_all_nth)
  have eq: "map priority ss = map ?g ?ids"
    by (rule nth_equalityI) (simp_all add: len[symmetric] nth)
  have sub: "set ?ids \<subseteq> set order"
  proof
    fix i assume "i \<in> set ?ids"
    then obtain j where "j < length files" "i = storyId (fst (files ! j))"
      by (auto simp: in_set_conv_nth)
    with nth show "i \<in> set order" by simp
  qed
  have "inj_on ?g (set ?ids)"
  proof (rule inj_onI)
    fix a b assume "a \<in> set ?ids" "b \<in> set ?ids" "indexOf order a + 1 = indexOf order b + 1"
    with sub have "a \<in> set order" "indexOf order a = indexOf order b" by auto
    then show "a = b" by (rule indexOf_inj)
  qed
  with assms(2) have "distinct (map ?g ?ids)" by (simp only: distinct_map)
  then show ?thesis unfolding eq .
qed

lemma distinct_sort_key: "distinct (map f (sort_key f xs)) = distinct (map f xs)"
proof -
  have "mset (map f (sort_key f xs)) = mset (map f xs)" by simp
  then show ?thesis by (rule mset_eq_imp_distinct_iff)
qed

lemma mapE_Inr_mem:
  assumes "mapE f xs = Inr ys" "x \<in> set xs"
  shows "\<exists>y. f x = Inr y"
proof -
  from assms(2) obtain i where i: "i < length xs" "xs ! i = x" by (auto simp: in_set_conv_nth)
  from mapE_Inr[OF assms(1)] have "\<forall>j<length xs. f (xs ! j) = Inr (ys ! j)"
    by (simp add: list_all2_conv_all_nth)
  with i have "f x = Inr (ys ! i)" by auto
  then show ?thesis ..
qed

lemma mapE_isl: "\<not> isl (mapE f pre) \<Longrightarrow> f x = Inl e \<Longrightarrow> mapE f (pre @ x # post) = Inl e"
proof -
  assume a: "\<not> isl (mapE f pre)" and b: "f x = Inl e"
  from a obtain ys where "mapE f pre = Inr ys" by (cases "mapE f pre") simp_all
  then show ?thesis using b by (rule mapE_stops)
qed

lemma storyPhase_invalid:
  assumes "priorityFile fs = Inr order"
    and "mapE (mkStory p order st3) (mdFiles (storiesDir fs)) = Inl e"
  shows "storyPhase cl p cfg fs rid pinfo st3 = (Inl e, st3)"
  using assms by (simp add: storyPhase_def)

lemma reaches_storyPhase:
  assumes "reachesStories cl p cfg fs rid pinfo" "createIssues cl p cfg fs = (r, st)"
  shows "storyPhase cl p cfg fs rid pinfo (snd (epicPhase cl p cfg fs rid pinfo (start cfg))) = (r, st)"
  using createIssues_reaches[OF assms(1)] assms(2) by simp

lemma reaches_mkStory:
  assumes "reachesStories cl p cfg fs rid pinfo" "createIssues cl p cfg fs = (r, st)"
  shows "mkStory p order st = mkStory p order (snd (epicPhase cl p cfg fs rid pinfo (start cfg)))"
proof -
  note f = storyPhase_frame[OF reaches_storyPhase[OF assms]]
  show ?thesis by (rule mkStory_cong) (use f in blast)+
qed

lemma mkStory_unlisted:
  "p content = Inr m \<Longrightarrow> storyId name \<notin> set order \<Longrightarrow>
     mkStory p order st (name, content)
       = Inl (Error (''Story '' @ name @ '' not found in priority order''))"
  by (simp add: mkStory_def indexOf_miss)

lemma map_fst_bare: "map fst (bare obj) = map fst obj"
  by (simp add: bare_def comp_def)

lemma keys_cong: "bare obj = bare obj' \<Longrightarrow> map fst obj = map fst obj'"
  by (metis map_fst_bare)

lemma epicPhase_keys:
  assumes "epicPhase cl p cfg fs rid pinfo (start cfg) = (r, st3)"
  shows "distinct (map fst (epics st3))
    \<and> set (map fst (epics st3)) \<subseteq> epicKey ` set (mdFiles (epicsDir fs))"
  using assms
proof (cases rule: epicPhase_cases)
  case (parse e)
  show ?thesis unfolding parse(3) by simp
next
  case (read obj n m)
  have k: "map fst (epics st3) = map fst obj" using read(2) by (rule keys_cong)
  from readEpics_keys[OF read(1)] have "set (map fst obj) = epicKey ` set (mdFiles (epicsDir fs))"
    by simp
  with read(3) show ?thesis unfolding k by simp
qed

lemma run_epic_keys:
  assumes "createIssues cl p cfg fs = (r, st)"
  shows "distinct (map fst (epics st))
    \<and> set (map fst (epics st)) \<subseteq> epicKey ` set (mdFiles (epicsDir fs))"
  using assms
proof (cases rule: createIssues_cases)
  case (early e)
  show ?thesis unfolding early(2) by simp
next
  case (epic rid pinfo e)
  from epic(1) show ?thesis by (rule epicPhase_keys)
next
  case (story rid pinfo st3)
  have "epics st = epics st3" using storyPhase_frame[OF story(2)] by blast
  then show ?thesis using epicPhase_keys[OF story(1)] by simp
qed

lemma mkStory_orphan:
  assumes "p content = Inr m" "storyId name \<in> set order"
    "truthy (storyTitle (frontmatter m))"
    "fst (segments name) \<notin> set (map fst (epics st))"
    "fst (segments name) \<notin> set objectPrototypeKeys"
  shows "mkStory p order st (name, content) = Inl TypeError"
proof -
  have "map_of (epics st) (fst (segments name)) = None"
    using assms(4) by (simp add: map_of_eq_None_iff)
  then have "epic_issueId_of (epics st) (fst (segments name)) = Inl TypeError"
    using assms(5) by (simp add: epic_issueId_of_def)
  moreover have "indexOf order (storyId name) \<noteq> - 1" using assms(2) by (simp add: indexOf_miss)
  ultimately show ?thesis using assms(1,3) by (simp add: mkStory_def Let_def)
qed

lemma inherited_name_story_created:
  "fst (run fs_inherited) = Inr ()
   \<and> filter isStoryCall (calls (snd (run fs_inherited)))
       = [CreateIssueAddToProject ''R'' () ''o'' ''r'' None ''Story A'' ''sa'' None]"
  by code_simp

lemma insort_key_map:
  "insort_key f (g x) (map g xs) = map g (insort_key (\<lambda>y. f (g y)) x xs)"
  by (induction xs) simp_all

lemma sort_key_map: "sort_key f (map g xs) = map g (sort_key (\<lambda>y. f (g y)) xs)"
  by (induction xs) (simp_all add: insort_key_map)

lemma bare_obj_entries: "bare (obj_entries obj) = obj_entries (bare obj)"
  by (simp add: bare_def obj_entries_def sort_key_map filter_map comp_def)

lemma epicCalls_bare:
  "map (\<lambda>ke. epicCall rid pinfo cfg (snd ke) l) es
     = map (\<lambda>kb. CreateIssue rid pinfo (owner cfg) (repo cfg) (title (frontmatter (snd kb)))
                   (epicBody (frontmatter (snd kb))) l) (bare es)"
  by (simp add: bare_def epicCall_def comp_def)

lemma bare_take: "bare (take m es) = take m (bare es)"
  by (simp add: bare_def take_map)

lemma epicCalls_cong:
  assumes "bare obj = bare obj'"
  shows "map (\<lambda>ke. epicCall rid pinfo cfg (snd ke) l) (take m (obj_entries obj))
     = map (\<lambda>ke. epicCall rid pinfo cfg (snd ke) l) (take m (obj_entries obj'))"
  unfolding epicCalls_bare bare_take bare_obj_entries assms ..

lemma length_bare: "length (bare obj) = length obj"
  by (simp add: bare_def)

lemma epicPhase_epicCalls:
  assumes "epicPhase cl p cfg fs rid pinfo (start cfg) = (r, st3)"
  shows "\<exists>m\<le>length (epics st3).
     filter isEpicCall (calls st3)
       = map (\<lambda>ke. epicCall rid pinfo cfg (snd ke) (epicLabelId st3))
           (take m (obj_entries (epics st3)))
     \<and> (r = Inr () \<longrightarrow> m = length (epics st3))"
  using assms
proof (cases rule: epicPhase_cases)
  case (parse e)
  have "filter isEpicCall (calls st3)
       = map (\<lambda>ke. epicCall rid pinfo cfg (snd ke) (epicLabelId st3))
           (take 0 (obj_entries (epics st3)))
     \<and> (r = Inr () \<longrightarrow> 0 = length (epics st3))"
    unfolding parse(2,3) by simp
  then show ?thesis by blast
next
  case (read obj n m)
  have len: "length (epics st3) = length obj"
    using arg_cong[OF read(2), of length] by (simp only: length_bare)
  have "filter isEpicCall (calls st3)
       = map (\<lambda>ke. epicCall rid pinfo cfg (snd ke) (epicLabelId st3)) (take m (obj_entries obj))"
    unfolding read(7) by simp
  also have "\<dots> = map (\<lambda>ke. epicCall rid pinfo cfg (snd ke) (epicLabelId st3))
           (take m (obj_entries (epics st3)))"
    by (rule epicCalls_cong[OF read(2)[symmetric]])
  finally have "m \<le> length (epics st3) \<and> filter isEpicCall (calls st3)
       = map (\<lambda>ke. epicCall rid pinfo cfg (snd ke) (epicLabelId st3))
           (take m (obj_entries (epics st3)))
     \<and> (r = Inr () \<longrightarrow> m = length (epics st3))"
    using read(6,9) unfolding len by simp
  then show ?thesis by blast
qed

lemma run_epicCalls:
  assumes "createIssues cl p cfg fs = (r, st)"
  shows "\<exists>rid pinfo m. m \<le> length (epics st)
     \<and> filter isEpicCall (calls st)
       = map (\<lambda>ke. epicCall rid pinfo cfg (snd ke) (epicLabelId st))
           (take m (obj_entries (epics st)))
     \<and> (r = Inr () \<or> (\<exists>c\<in>set (calls st). isStoryCall c) \<longrightarrow> m = length (epics st))"
  using assms
proof (cases rule: createIssues_cases)
  case (early e)
  have ns: "\<not> (\<exists>c\<in>set (calls st). isStoryCall c)"
  proof
    assume "\<exists>c\<in>set (calls st). isStoryCall c"
    then obtain c where "c \<in> set (filter isStoryCall (calls st))" by auto
    then show False unfolding early(7) by simp
  qed
  have "0 \<le> length (epics st)
     \<and> filter isEpicCall (calls st)
       = map (\<lambda>ke. epicCall undefined undefined cfg (snd ke) (epicLabelId st))
           (take 0 (obj_entries (epics st)))
     \<and> (r = Inr () \<or> (\<exists>c\<in>set (calls st). isStoryCall c) \<longrightarrow> 0 = length (epics st))"
    using ns unfolding early(1,6) by simp
  then show ?thesis by blast
next
  case (epic rid pinfo e)
  have nsf: "filter isStoryCall (calls st) = []"
    using epicPhase_labels[OF epic(1)] by blast
  have ns: "\<not> (\<exists>c\<in>set (calls st). isStoryCall c)"
  proof
    assume "\<exists>c\<in>set (calls st). isStoryCall c"
    then obtain c where "c \<in> set (filter isStoryCall (calls st))" by auto
    then show False unfolding nsf by simp
  qed
  from epicPhase_epicCalls[OF epic(1)] obtain m where m: "m \<le> length (epics st)"
    "filter isEpicCall (calls st)
       = map (\<lambda>ke. epicCall rid pinfo cfg (snd ke) (epicLabelId st))
           (take m (obj_entries (epics st)))" by blast
  have "r = Inr () \<or> (\<exists>c\<in>set (calls st). isStoryCall c) \<longrightarrow> m = length (epics st)"
    using ns unfolding epic(2) by simp
  with m show ?thesis by blast
next
  case (story rid pinfo st3)
  note f = storyPhase_frame[OF story(2)]
  have e1: "epics st = epics st3" using f by blast
  have e2: "filter isEpicCall (calls st) = filter isEpicCall (calls st3)" using f by blast
  have e3: "epicLabelId st = epicLabelId st3"
    by (rule epicLabelId_cong) (use f in blast)
  from epicPhase_epicCalls[OF story(1)] obtain m where m: "m \<le> length (epics st3)"
    "filter isEpicCall (calls st3)
       = map (\<lambda>ke. epicCall rid pinfo cfg (snd ke) (epicLabelId st3))
           (take m (obj_entries (epics st3)))" "m = length (epics st3)" by blast
  have "m \<le> length (epics st)
     \<and> filter isEpicCall (calls st)
       = map (\<lambda>ke. epicCall rid pinfo cfg (snd ke) (epicLabelId st))
           (take m (obj_entries (epics st)))
     \<and> (r = Inr () \<or> (\<exists>c\<in>set (calls st). isStoryCall c) \<longrightarrow> m = length (epics st))"
    unfolding e1 e2 e3 using m by (intro conjI impI)
  then show ?thesis by blast
qed

lemma split_nonempty: "split sep s \<noteq> []"
  by (induction s) (auto split: list.splits)

lemma split_prefix:
  "sep \<notin> set ds \<Longrightarrow> split sep (ds @ sep # rest) = ds # split sep rest"
proof (induction ds)
  case Nil
  show ?case by simp
next
  case (Cons d ds)
  then show ?case by auto
qed

lemma segments_prefix:
  assumes "CHR ''-'' \<notin> set ds"
  shows "fst (segments (ds @ CHR ''-'' # rest)) = ds"
proof -
  obtain b bs where b: "split CHR ''-'' rest = b # bs"
    using split_nonempty[of "CHR ''-''" rest] by (cases "split CHR ''-'' rest") simp_all
  show ?thesis
    unfolding segments_def split_prefix[OF assms] b by simp
qed

lemma match_epicNumber_Some:
  assumes "match_epicNumber file = Some ds"
  shows "ds = takeWhile is_digit file \<and> ds \<noteq> [] \<and> list_all is_digit ds
    \<and> (\<exists>rest. file = ds @ CHR ''-'' # rest)"
proof -
  from assms have ds: "ds = takeWhile is_digit file" "ds \<noteq> []"
    and t: "take 1 (dropWhile is_digit file) = ''-''"
    by (auto simp: match_epicNumber_def Let_def split: if_splits)
  from t obtain rest where r: "dropWhile is_digit file = CHR ''-'' # rest"
    by (cases "dropWhile is_digit file") simp_all
  have "file = takeWhile is_digit file @ dropWhile is_digit file" by simp
  then have "file = ds @ CHR ''-'' # rest" unfolding r ds(1) .
  moreover have "list_all is_digit ds" unfolding ds(1) list_all_iff
    by (auto dest: set_takeWhileD)
  ultimately show ?thesis using ds by blast
qed

lemma mkStory_Inl:
  assumes "mkStory p order st (name, content) = Inl e"
  shows "p content = Inl e
    \<or> (storyId name \<notin> set order
        \<and> e = Error (''Story '' @ name @ '' not found in priority order''))
    \<or> e = Error (''Title not set for '' @ name)
    \<or> (fst (segments name) \<notin> set (map fst (epics st)) \<and> e = TypeError)"
proof (cases "p content")
  case (Inl e')
  with assms show ?thesis by (simp add: mkStory_def)
next
  case (Inr m)
  show ?thesis
  proof (cases "indexOf order (storyId name) = - 1")
    case True
    then have "storyId name \<notin> set order" by (simp add: indexOf_miss)
    moreover from assms Inr True
    have "e = Error (''Story '' @ name @ '' not found in priority order'')"
      by (simp add: mkStory_def)
    ultimately show ?thesis by blast
  next
    case ne: False
    show ?thesis
    proof (cases "truthy (storyTitle (frontmatter m))")
      case False
      with assms Inr ne have "e = Error (''Title not set for '' @ name)"
        by (simp add: mkStory_def Let_def)
      then show ?thesis by blast
    next
      case t: True
      show ?thesis
      proof (cases "epic_issueId_of (epics st) (fst (segments name))")
        case (Inl e')
        with assms Inr ne t have ee: "e = e'" by (simp add: mkStory_def Let_def)
        from Inl have "map_of (epics st) (fst (segments name)) = None \<and> e' = TypeError"
          by (auto simp: epic_issueId_of_def split: option.splits if_splits)
        then have "fst (segments name) \<notin> set (map fst (epics st)) \<and> e = TypeError"
          unfolding ee by (simp add: map_of_eq_None_iff)
        then show ?thesis by blast
      next
        case (Inr parent)
        with assms \<open>p content = Inr m\<close> ne t show ?thesis by (simp add: mkStory_def Let_def)
      qed
    qed
  qed
qed

lemma no_story_call:
  "filter isStoryCall cs = [] \<Longrightarrow> \<not> (\<exists>c\<in>set cs. isStoryCall c)"
  by (simp add: filter_empty_conv)

lemma run_call_order:
  assumes "createIssues cl p cfg fs = (r, st)"
  shows "\<exists>pre post. calls st = pre @ post \<and> filter isStoryCall pre = []
     \<and> filter isStoryCall post = post \<and> filter isEpicCall post = []"
proof -
  have triv: "filter isStoryCall (calls st) = [] \<Longrightarrow> ?thesis"
  proof -
    assume "filter isStoryCall (calls st) = []"
    then have "calls st = calls st @ [] \<and> filter isStoryCall (calls st) = []
     \<and> filter isStoryCall [] = [] \<and> filter isEpicCall [] = []" by simp
    then show ?thesis by blast
  qed
  from assms show ?thesis
  proof (cases rule: createIssues_cases)
    case (early e)
    from early(7) show ?thesis by (rule triv)
  next
    case (epic rid pinfo e)
    have "filter isStoryCall (calls st) = []" using epicPhase_labels[OF epic(1)] by blast
    then show ?thesis by (rule triv)
  next
    case (story rid pinfo st3)
    have z: "filter isStoryCall (calls st3) = []" using epicPhase_labels[OF story(1)] by blast
    from story(2) show ?thesis
    proof (cases rule: storyPhase_cases)
      case (manifest e)
      have "filter isStoryCall (calls st) = []" unfolding manifest(3) by (rule z)
      then show ?thesis by (rule triv)
    next
      case (invalid order e)
      have "filter isStoryCall (calls st) = []" unfolding invalid(4) by (rule z)
      then show ?thesis by (rule triv)
    next
      case (created order ss n)
      let ?post = "map (storyCall rid pinfo cfg) (take n (sort_key priority ss))"
      have "calls st = calls st3 @ ?post" by (simp add: created(4))
      moreover have "filter isStoryCall ?post = ?post" "filter isEpicCall ?post = []"
        by simp_all
      ultimately show ?thesis using z by blast
    qed
  qed
qed

lemma reaches_epicPhase:
  assumes "reachesStories cl p cfg fs rid pinfo"
  shows "epicPhase cl p cfg fs rid pinfo (start cfg)
           = (Inr (), snd (epicPhase cl p cfg fs rid pinfo (start cfg)))"
proof -
  from assms have "fst (epicPhase cl p cfg fs rid pinfo (start cfg)) = Inr ()"
    unfolding reachesStories_def by blast
  then show ?thesis by (cases "epicPhase cl p cfg fs rid pinfo (start cfg)") simp
qed

lemma epicPhase_all_created:
  assumes "epicPhase cl p cfg fs rid pinfo (start cfg) = (Inr (), st3)"
  shows "length (filter isEpicCall (calls st3)) = length (epics st3)"
proof -
  from epicPhase_epicCalls[OF assms] obtain m where
    m: "filter isEpicCall (calls st3)
       = map (\<lambda>ke. epicCall rid pinfo cfg (snd ke) (epicLabelId st3))
           (take m (obj_entries (epics st3)))" "m = length (epics st3)" by blast
  show ?thesis unfolding m(1) by (simp add: m(2) length_obj_entries)
qed

lemma readEpics_append:
  "readEpics p (xs @ ys) obj
     = (case readEpics p xs obj of Inl e \<Rightarrow> Inl e | Inr obj' \<Rightarrow> readEpics p ys obj')"
proof (induction xs arbitrary: obj)
  case Nil
  show ?case by simp
next
  case (Cons fc xs)
  obtain name content where fc: "fc = (name, content)" by (cases fc)
  show ?case unfolding fc by (cases "p content") (simp_all add: Cons.IH)
qed

lemma readEpics_other:
  "readEpics p files obj = Inr obj' \<Longrightarrow> k \<notin> epicKey ` set files \<Longrightarrow>
     map_of obj' k = map_of obj k"
proof (induction files arbitrary: obj)
  case Nil
  then show ?case by simp
next
  case (Cons fc files)
  obtain name content where fc: "fc = (name, content)" by (cases fc)
  from Cons.prems(1) obtain m where m: "p content = Inr m"
    "readEpics p files (obj_set (str (match_epicNumber name)) (newEpic m) obj) = Inr obj'"
    unfolding fc by (cases "p content") simp_all
  from Cons.prems(2) have k: "k \<noteq> str (match_epicNumber name)" "k \<notin> epicKey ` set files"
    unfolding fc by (auto simp: epicKey_def)
  from Cons.IH[OF m(2) k(2)] k(1) show ?case by (simp add: map_of_obj_set)
qed

lemma readEpics_last:
  assumes "readEpics p (pre @ (name, content) # post) obj0 = Inr obj"
    and "\<forall>fc\<in>set post. epicKey fc \<noteq> epicKey (name, content)"
  shows "\<exists>m. p content = Inr m \<and> map_of obj (epicKey (name, content)) = Some (newEpic m)"
proof -
  from assms(1) obtain obj1 where o1: "readEpics p pre obj0 = Inr obj1"
    "readEpics p ((name, content) # post) obj1 = Inr obj"
    unfolding readEpics_append by (cases "readEpics p pre obj0") simp_all
  from o1(2) obtain m where m: "p content = Inr m"
    "readEpics p post (obj_set (str (match_epicNumber name)) (newEpic m) obj1) = Inr obj"
    by (cases "p content") simp_all
  have "epicKey (name, content) \<notin> epicKey ` set post" using assms(2) by force
  from readEpics_other[OF m(2) this]
  have "map_of obj (epicKey (name, content)) = Some (newEpic m)"
    by (simp add: map_of_obj_set epicKey_def)
  with m(1) show ?thesis by blast
qed

lemma map_of_bare_option: "map_of (bare obj) k = map_option epic (map_of obj k)"
  by (induction obj) (simp_all add: bare_def)

lemma createEpics_other:
  "createEpics cl rid pinfo cfg es st = (r, st') \<Longrightarrow> k \<notin> fst ` set es \<Longrightarrow>
     map_of (epics st') k = map_of (epics st) k"
proof (induction es arbitrary: st)
  case Nil
  then show ?case by simp
next
  case (Cons ke es)
  obtain k' e where ke: "ke = (k', e)" by (cases ke)
  from Cons.prems(2) have kk: "k \<noteq> k'" "k \<notin> fst ` set es" unfolding ke by auto
  show ?case
  proof (cases "\<exists>lid i. labelsByName st (Some ''Epic'') = Some lid \<and> lid \<noteq> []
                  \<and> createIssue cl (calls st) (epicCall rid pinfo cfg e lid) = Inr i")
    case False
    with Cons.prems(1) have "epics st' = epics st" unfolding ke
      by (auto simp: invoke_def split: option.splits if_splits sum.splits)
    then show ?thesis by simp
  next
    case True
    then obtain lid i where li: "labelsByName st (Some ''Epic'') = Some lid" "lid \<noteq> []"
      "createIssue cl (calls st) (epicCall rid pinfo cfg e lid) = Inr i" by blast
    let ?st1 = "st\<lparr>calls := calls st @ [epicCall rid pinfo cfg e lid],
                    epics := obj_set k' (e\<lparr>issueId := i\<rparr>) (epics st)\<rparr>"
    from Cons.prems(1) li have run: "createEpics cl rid pinfo cfg es ?st1 = (r, st')"
      unfolding ke by (simp add: invoke_def)
    from Cons.IH[OF run kk(2)] kk(1) show ?thesis by (simp add: map_of_obj_set)
  qed
qed

lemma createEpics_issueId:
  assumes "createEpics cl rid pinfo cfg es st = (Inr (), st')" "distinct (map fst es)"
    "(k, e) \<in> set es"
  shows "\<exists>h i t. map_of (epics st') k = Some (e\<lparr>issueId := i\<rparr>)
     \<and> createIssue cl h (epicCall rid pinfo cfg e (epicLabelId st)) = Inr i
     \<and> calls st' = h @ epicCall rid pinfo cfg e (epicLabelId st) # t"
  using assms
proof (induction es arbitrary: st)
  case Nil
  then show ?case by simp
next
  case (Cons ke es)
  obtain k' e' where ke: "ke = (k', e')" by (cases ke)
  have ex: "\<exists>lid i. labelsByName st (Some ''Epic'') = Some lid \<and> lid \<noteq> []
                  \<and> createIssue cl (calls st) (epicCall rid pinfo cfg e' lid) = Inr i"
  proof (rule ccontr)
    assume "\<not> ?thesis"
    with Cons.prems(1) show False unfolding ke
      by (auto simp: invoke_def split: option.splits if_splits sum.splits)
  qed
  then obtain lid i where li: "labelsByName st (Some ''Epic'') = Some lid" "lid \<noteq> []"
    "createIssue cl (calls st) (epicCall rid pinfo cfg e' lid) = Inr i" by blast
  let ?st1 = "st\<lparr>calls := calls st @ [epicCall rid pinfo cfg e' lid],
                  epics := obj_set k' (e'\<lparr>issueId := i\<rparr>) (epics st)\<rparr>"
  from Cons.prems(1) li have run: "createEpics cl rid pinfo cfg es ?st1 = (Inr (), st')"
    unfolding ke by (simp add: invoke_def)
  have lid: "epicLabelId st = lid" "epicLabelId ?st1 = lid" using li(1)
    by (simp_all add: epicLabelId_def)
  from Cons.prems(2) have d: "distinct (map fst es)" "k' \<notin> fst ` set es" unfolding ke by auto
  from createEpics_state[OF run] obtain n where
    n: "calls st' = calls ?st1 @ map (\<lambda>ke. epicCall rid pinfo cfg (snd ke) (epicLabelId ?st1))
           (take n es)" by blast
  show ?case
  proof (cases "(k, e) = (k', e')")
    case True
    then have eq: "k = k'" "e = e'" by simp_all
    have 1: "map_of (epics st') k = Some (e\<lparr>issueId := i\<rparr>)"
      using createEpics_other[OF run d(2)] unfolding eq by (simp add: map_of_obj_set)
    have 2: "createIssue cl (calls st) (epicCall rid pinfo cfg e (epicLabelId st)) = Inr i"
      unfolding eq lid(1) by (rule li(3))
    have 3: "calls st' = calls st @ epicCall rid pinfo cfg e (epicLabelId st)
        # map (\<lambda>ke. epicCall rid pinfo cfg (snd ke) lid) (take n es)"
      unfolding n eq lid by simp
    from 1 2 3 show ?thesis by blast
  next
    case False
    with Cons.prems(3) have "(k, e) \<in> set es" unfolding ke by auto
    from Cons.IH[OF run d(1) this] show ?thesis unfolding lid .
  qed
qed

lemma epicPhase_success:
  assumes "epicPhase cl p cfg fs rid pinfo st2 = (Inr (), st3)"
  obtains obj st1 where "readEpics p (mdFiles (epicsDir fs)) [] = Inr obj" "epics st1 = obj"
    "createEpics cl rid pinfo cfg (obj_entries obj) st1 = (Inr (), st3)"
proof (cases "readEpics p (mdFiles (epicsDir fs)) []")
  case (Inl e)
  with assms show ?thesis by (simp add: epicPhase_def)
next
  case (Inr obj)
  obtain r1 st1 where rl: "resolveLabels cl rid (labels obj) (st2\<lparr>epics := obj\<rparr>) = (r1, st1)"
    by (cases "resolveLabels cl rid (labels obj) (st2\<lparr>epics := obj\<rparr>)")
  from resolveLabels_state[OF rl] have e1: "epics st1 = obj" by auto
  show ?thesis
  proof (cases r1)
    case (Inl e)
    with assms Inr rl show ?thesis by (simp add: epicPhase_def)
  next
    case r1: (Inr u)
    with assms Inr rl e1 have "createEpics cl rid pinfo cfg (obj_entries obj) st1 = (Inr (), st3)"
      by (simp add: epicPhase_def)
    with Inr e1 show ?thesis by (rule that)
  qed
qed

lemma epicCall_issueId:
  "epicCall rid pinfo cfg (e\<lparr>issueId := i\<rparr>) l = epicCall rid pinfo cfg e l"
  by (simp add: epicCall_def)

lemma epicPhase_last_file:
  assumes "epicPhase cl p cfg fs rid pinfo st2 = (Inr (), st3)"
    and "mdFiles (epicsDir fs) = pre @ (name, content) # post"
    and "\<forall>fc\<in>set post. epicKey fc \<noteq> epicKey (name, content)"
  shows "\<exists>m e h t. p content = Inr m
     \<and> map_of (epics st3) (epicKey (name, content)) = Some e \<and> epic e = epic (newEpic m)
     \<and> createIssue cl h (epicCall rid pinfo cfg e (epicLabelId st3)) = Inr (issueId e)
     \<and> calls st3 = h @ epicCall rid pinfo cfg e (epicLabelId st3) # t"
  using assms(1)
proof (rule epicPhase_success)
  fix obj st1
  assume re: "readEpics p (mdFiles (epicsDir fs)) [] = Inr obj" and e1: "epics st1 = obj"
    and ce: "createEpics cl rid pinfo cfg (obj_entries obj) st1 = (Inr (), st3)"
  let ?k = "epicKey (name, content)"
  from readEpics_last[OF re[unfolded assms(2)] assms(3)] obtain m where
    m: "p content = Inr m" "map_of obj ?k = Some (newEpic m)" by blast
  have d: "distinct (map fst obj)" using readEpics_keys[OF re] by simp
  have din: "(?k, newEpic m) \<in> set (obj_entries obj)"
    using map_of_SomeD[OF m(2)] by (simp only: set_obj_entries)
  have lid: "epicLabelId st3 = epicLabelId st1"
    by (rule epicLabelId_cong) (use createEpics_state[OF ce] in blast)
  from createEpics_issueId[OF ce distinct_obj_entries[OF d] din] obtain h i t where
    x: "map_of (epics st3) ?k = Some ((newEpic m)\<lparr>issueId := i\<rparr>)"
       "createIssue cl h (epicCall rid pinfo cfg (newEpic m) (epicLabelId st1)) = Inr i"
       "calls st3 = h @ epicCall rid pinfo cfg (newEpic m) (epicLabelId st1) # t" by blast
  let ?e = "(newEpic m)\<lparr>issueId := i\<rparr>"
  have 1: "epic ?e = epic (newEpic m)" by simp
  have 2: "createIssue cl h (epicCall rid pinfo cfg ?e (epicLabelId st3)) = Inr (issueId ?e)"
    unfolding epicCall_issueId lid using x(2) by simp
  have 3: "calls st3 = h @ epicCall rid pinfo cfg ?e (epicLabelId st3) # t"
    unfolding epicCall_issueId lid by (rule x(3))
  from m(1) x(1) 1 2 3 show ?thesis by blast
qed

lemma epic_issueId_of_own:
  "map_of obj k = Some e \<Longrightarrow> epic_issueId_of obj k = Inr (Some (issueId e))"
  by (simp add: epic_issueId_of_def)

lemma mapped_parents:
  assumes "mapE (mkStory p order st) files = Inr ss" "map_of (epics st) k = Some e"
  shows "list_all2 (\<lambda>fc s. fst (segments (fst fc)) = k \<longrightarrow> epic_issueId s = Some (issueId e))
           files ss"
proof (rule list_all2_mono[OF mapE_Inr[OF assms(1)]])
  fix fc s assume a: "mkStory p order st fc = Inr s"
  obtain name content where nc: "fc = (name, content)" by (cases fc)
  from a[unfolded nc]
  show "fst (segments (fst fc)) = k \<longrightarrow> epic_issueId s = Some (issueId e)"
  proof (rule mkStory_Inr)
    fix m assume i: "epic_issueId_of (epics st) (fst (segments name)) = Inr (epic_issueId s)"
    show ?thesis
    proof
      assume "fst (segments (fst fc)) = k"
      then have "fst (segments name) = k" by (simp add: nc)
      with i epic_issueId_of_own[OF assms(2)] show "epic_issueId s = Some (issueId e)" by simp
    qed
  qed
qed

lemma mapped_story_source:
  assumes "mapE (mkStory p order st) files = Inr ss" "s \<in> set ss"
  shows "\<exists>fc\<in>set files. \<exists>m. p (snd fc) = Inr m \<and> frontmatter s = frontmatter m
     \<and> mkStory p order st fc = Inr s"
proof -
  from mapE_Inr_set[OF assms] obtain fc where fc: "fc \<in> set files" "mkStory p order st fc = Inr s"
    by blast
  obtain name content where nc: "fc = (name, content)" by (cases fc)
  from fc(2)[unfolded nc] show ?thesis
  proof (rule mkStory_Inr)
    fix m assume "p content = Inr m" "frontmatter s = frontmatter m"
    then have "p (snd fc) = Inr m \<and> frontmatter s = frontmatter m \<and> mkStory p order st fc = Inr s"
      using fc(2) by (simp add: nc)
    with fc(1) show ?thesis by blast
  qed
qed

lemma mapped_stories:
  assumes "mapE (mkStory p order st) files = Inr ss"
  shows "list_all2 (\<lambda>fc s. mkStory p order st fc = Inr s \<and> storyId (fst fc) \<in> set order
            \<and> priority s = indexOf order (storyId (fst fc)) + 1) files ss"
proof (rule list_all2_mono[OF mapE_Inr[OF assms]])
  fix fc s assume a: "mkStory p order st fc = Inr s"
  obtain name content where nc: "fc = (name, content)" by (cases fc)
  from a[unfolded nc] show "mkStory p order st fc = Inr s \<and> storyId (fst fc) \<in> set order
            \<and> priority s = indexOf order (storyId (fst fc)) + 1"
  proof (rule mkStory_Inr)
    fix m assume "storyId name \<in> set order" "priority s = indexOf order (storyId name) + 1"
    with a show ?thesis by (simp add: nc)
  qed
qed

lemma mapped_stories_weaken:
  "list_all2 (\<lambda>fc s. mkStory p order st fc = Inr s \<and> storyId (fst fc) \<in> set order
            \<and> priority s = indexOf order (storyId (fst fc)) + 1) files ss \<Longrightarrow>
   list_all2 (\<lambda>fc s. storyId (fst fc) \<in> set order
            \<and> priority s = indexOf order (storyId (fst fc)) + 1) files ss"
  by (erule list_all2_mono) blast

lemma is_digit_iff:
  "is_digit c \<longleftrightarrow> 48 \<le> (of_char c :: nat) \<and> (of_char c :: nat) \<le> 57"
proof
  assume "is_digit c"
  then have "c \<in> set ''0123456789''" by (simp only: is_digit_def)
  then show "48 \<le> (of_char c :: nat) \<and> (of_char c :: nat) \<le> 57" by auto
next
  assume "48 \<le> (of_char c :: nat) \<and> (of_char c :: nat) \<le> 57"
  then have "(of_char c :: nat) \<in> of_char ` set ''0123456789''"
    by (simp add: numeral_eq_Suc) arith
  then have "c \<in> set ''0123456789''"
    by (auto simp only: inj_image_mem_iff[OF inj_of_char])
  then show "is_digit c" by (simp only: is_digit_def)
qed

lemma match_epicNumber_digits:
  assumes "ds \<noteq> []" "list_all is_digit ds"
  shows "match_epicNumber (ds @ CHR ''-'' # rest) = Some ds"
proof -
  have nd: "\<not> is_digit CHR ''-''" by (simp add: is_digit_def)
  have all: "\<And>x. x \<in> set ds \<Longrightarrow> is_digit x" using assms(2) by (simp add: list_all_iff)
  have t: "takeWhile is_digit (ds @ CHR ''-'' # rest) = ds"
    using all nd by (simp add: takeWhile_append2)
  have d: "dropWhile is_digit (ds @ CHR ''-'' # rest) = CHR ''-'' # rest"
    using all nd by (simp add: dropWhile_append2)
  show ?thesis unfolding match_epicNumber_def t d using assms(1) by simp
qed

lemma digits_no_dash: "list_all is_digit ds \<Longrightarrow> CHR ''-'' \<notin> set ds"
proof
  assume "list_all is_digit ds" "CHR ''-'' \<in> set ds"
  then have "is_digit CHR ''-''" by (simp add: list_all_iff)
  then show False by (simp add: is_digit_def)
qed

lemma readEpics_key_set:
  assumes "readEpics p files [] = Inr obj"
  shows "set (map fst obj) = epicKey ` set files"
  using readEpics_keys[OF assms] by simp

lemma truthy_iff: "truthy x \<longleftrightarrow> x \<notin> {None, Some []}"
  by (cases x) auto

lemma storyTitle_truthy:
  "truthy (storyTitle fm) \<longleftrightarrow> truthy (role fm) \<or> truthy (title fm)"
  by (simp add: storyTitle_def)

lemma mkStory_untitled:
  assumes "p content = Inr m" "storyId name \<in> set order"
    "\<not> truthy (storyTitle (frontmatter m))"
  shows "mkStory p order st (name, content) = Inl (Error (''Title not set for '' @ name))"
proof -
  have "indexOf order (storyId name) \<noteq> - 1" using assms(2) by (simp add: indexOf_miss)
  then show ?thesis using assms(1,3) by (simp add: mkStory_def Let_def)
qed

lemma mapE_fails_mem:
  assumes "x \<in> set xs" "f x = Inl e"
  shows "\<exists>e'. mapE f xs = Inl e'"
proof (cases "mapE f xs")
  case (Inl e')
  then show ?thesis by blast
next
  case (Inr ys)
  from mapE_Inr_mem[OF Inr assms(1)] assms(2) show ?thesis by simp
qed

lemma epic_issueId_of_Inr:
  "epic_issueId_of obj k = Inr v \<Longrightarrow> k \<in> set (map fst obj) \<or> k \<in> set objectPrototypeKeys"
proof (cases "map_of obj k")
  case None
  assume "epic_issueId_of obj k = Inr v"
  with None show ?thesis by (auto simp: epic_issueId_of_def split: if_splits)
next
  case (Some e)
  then have "k \<in> set (map fst obj)" by (force dest: map_of_SomeD)
  then show ?thesis ..
qed

lemma reaches_invalid:
  assumes "createIssues cl p cfg fs = (r, st)" "reachesStories cl p cfg fs rid pinfo"
    "priorityFile fs = Inr order"
    "mapE (mkStory p order st) (mdFiles (storiesDir fs)) = Inl e"
  shows "r = Inl e \<and> st = snd (epicPhase cl p cfg fs rid pinfo (start cfg))
          \<and> filter isStoryCall (calls st) = []
          \<and> length (filter isEpicCall (calls st)) = length (epics st)"
proof -
  let ?st3 = "snd (epicPhase cl p cfg fs rid pinfo (start cfg))"
  note sp = reaches_storyPhase[OF assms(2,1)]
  note mk = reaches_mkStory[OF assms(2,1), of order]
  note ep = reaches_epicPhase[OF assms(2)]
  from assms(4) have "mapE (mkStory p order ?st3) (mdFiles (storiesDir fs)) = Inl e" unfolding mk .
  with assms(3) have "storyPhase cl p cfg fs rid pinfo ?st3 = (Inl e, ?st3)"
    by (rule storyPhase_invalid)
  with sp have rs: "r = Inl e" "st = ?st3" by simp_all
  have z: "filter isStoryCall (calls ?st3) = []" using epicPhase_labels[OF ep] by blast
  have l: "length (filter isEpicCall (calls ?st3)) = length (epics ?st3)"
    using ep by (rule epicPhase_all_created)
  show ?thesis using rs(1) refl[of ?st3] z l unfolding rs(2) by (intro conjI)
qed

lemma mapped_valid:
  assumes "mapE (mkStory p order st) files = Inr ss" "fc \<in> set files"
  shows "\<exists>m. p (snd fc) = Inr m \<and> storyId (fst fc) \<in> set order
     \<and> (role (frontmatter m) \<notin> {None, Some []} \<or> title (frontmatter m) \<notin> {None, Some []})
     \<and> (fst (segments (fst fc)) \<in> set (map fst (epics st))
         \<or> fst (segments (fst fc)) \<in> set objectPrototypeKeys)"
proof -
  obtain name content where nc: "fc = (name, content)" by (cases fc)
  from mapE_Inr_mem[OF assms] obtain s where "mkStory p order st (name, content) = Inr s"
    unfolding nc ..
  then show ?thesis
  proof (rule mkStory_Inr)
    fix m assume m: "p content = Inr m" "storyId name \<in> set order"
      "truthy (storyTitle (frontmatter m))"
      "epic_issueId_of (epics st) (fst (segments name)) = Inr (epic_issueId s)"
    from m(3) have "truthy (role (frontmatter m)) \<or> truthy (title (frontmatter m))"
      by (simp only: storyTitle_truthy)
    then have t: "role (frontmatter m) \<notin> {None, Some []}
        \<or> title (frontmatter m) \<notin> {None, Some []}"
      unfolding truthy_iff .
    from epic_issueId_of_Inr[OF m(4)] m(1,2) t show ?thesis by (simp add: nc)
  qed
qed

lemma story_fails:
  assumes "p content = Inr m"
    and nk: "fst (segments name) \<in> set (map fst (epics st)) \<Longrightarrow> \<not> orphan"
    and "storyId name \<notin> set order
       \<or> (role (frontmatter m) \<in> {None, Some []} \<and> title (frontmatter m) \<in> {None, Some []})
       \<or> (orphan \<and> fst (segments name) \<notin> set objectPrototypeKeys)"
  shows "\<exists>e. mkStory p order st (name, content) = Inl e"
proof (cases "storyId name \<in> set order")
  case False
  have "mkStory p order st (name, content)
      = Inl (Error (''Story '' @ name @ '' not found in priority order''))"
    using assms(1) False by (rule mkStory_unlisted)
  then show ?thesis by blast
next
  case listed: True
  show ?thesis
  proof (cases "truthy (storyTitle (frontmatter m))")
    case False
    have "mkStory p order st (name, content) = Inl (Error (''Title not set for '' @ name))"
      using assms(1) listed False by (rule mkStory_untitled)
    then show ?thesis by blast
  next
    case True
    then have "truthy (role (frontmatter m)) \<or> truthy (title (frontmatter m))"
      by (simp only: storyTitle_truthy)
    then have "\<not> (role (frontmatter m) \<in> {None, Some []} \<and> title (frontmatter m) \<in> {None, Some []})"
      unfolding truthy_iff by blast
    with assms(3) listed have o: "orphan" "fst (segments name) \<notin> set objectPrototypeKeys"
      by blast+
    from nk o(1) have "fst (segments name) \<notin> set (map fst (epics st))" by blast
    with assms(1) listed True have "mkStory p order st (name, content) = Inl TypeError"
      using o(2) by (intro mkStory_orphan)
    then show ?thesis by blast
  qed
qed

lemma mapped_attached:
  assumes "mapE (mkStory p order st) files = Inr ss" "map_of (epics st) k = Some e"
  shows "list_all2 (\<lambda>fc s. mkStory p order st fc = Inr s \<and> s \<in> set ss
             \<and> (fst (segments (fst fc)) = k \<longrightarrow> epic_issueId s = Some (issueId e)))
           files ss"
proof -
  note a = mapE_Inr[OF assms(1)]
  note b = mapped_parents[OF assms]
  have l: "length files = length ss" using a by (rule list_all2_lengthD)
  show ?thesis
  proof (rule list_all2_all_nthI[OF l])
    fix i assume i: "i < length files"
    have 1: "mkStory p order st (files ! i) = Inr (ss ! i)"
      using a i by (rule list_all2_nthD)
    have 2: "ss ! i \<in> set ss" using i l by simp
    have 3: "fst (segments (fst (files ! i))) = k \<longrightarrow> epic_issueId (ss ! i) = Some (issueId e)"
      using b i by (rule list_all2_nthD)
    from 1 2 3 show "mkStory p order st (files ! i) = Inr (ss ! i) \<and> ss ! i \<in> set ss
      \<and> (fst (segments (fst (files ! i))) = k \<longrightarrow> epic_issueId (ss ! i) = Some (issueId e))"
      by (intro conjI)
  qed
qed

section \<open>The claims\<close>

text \<open>
  C2.  The claim: an epic record without a title makes the run fail with a ParseError,
  and no issue-creation call is made for that epic.  The code on the directory
  \<open>fs_untitled\<close>, whose only epic file \<^verbatim>\<open>001-epic.md\<close> has no title: line 104 passes
  \<^verbatim>\<open>frontmatter.title!\<close> on without a check, so the issue-creation call is made with the
  title \<^verbatim>\<open>undefined\<close>, and with a tracker that accepts the call the run ends without an
  error.  (The story path checks its title at lines 135-137.)
\<close>

theorem C2_untitled_epic_is_created:
  "fst (run fs_untitled) = Inr ()
   \<and> filter isEpicCall (calls (snd (run fs_untitled)))
       = [CreateIssue ''R'' () ''o'' ''r'' None [] ''L-Epic'']"
  by code_simp

text \<open>
  C3.  In every run the names for which \<^verbatim>\<open>createLabelIfNotExists\<close> is called are pairwise
  distinct and lie in the set made of the label of every epic of the mapping and the
  reserved name \<^verbatim>\<open>Epic\<close>.  Once the run has ended without error, or has made any
  issue-creation call, the names resolved are exactly that set, and they are the keys of
  \<^verbatim>\<open>labelsByName\<close>: one call per distinct name, however many epics share a label.
\<close>

theorem C3_labels_resolved_once:
  assumes "createIssues cl p cfg fs = (r, st)"
  shows "distinct (labelCalls (calls st))
    \<and> set (labelCalls (calls st)) \<subseteq> epicLabels (epics st) \<union> {Some ''Epic''}
    \<and> (r = Inr () \<or> (\<exists>c\<in>set (calls st). isEpicCall c \<or> isStoryCall c) \<longrightarrow>
          set (labelCalls (calls st)) = epicLabels (epics st) \<union> {Some ''Epic''}
          \<and> dom (labelsByName st) = set (labelCalls (calls st)))"
  using assms
proof (cases rule: createIssues_cases)
  case (early e)
  have "\<not> (\<exists>c\<in>set (calls st). isEpicCall c \<or> isStoryCall c)"
  proof
    assume "\<exists>c\<in>set (calls st). isEpicCall c \<or> isStoryCall c"
    then obtain c where "c \<in> set (calls st)" "isEpicCall c \<or> isStoryCall c" by blast
    then have "c \<in> set (filter isEpicCall (calls st)) \<or> c \<in> set (filter isStoryCall (calls st))"
      by simp
    then show False unfolding early(6,7) by simp
  qed
  moreover have "r \<noteq> Inr ()" using early(1) by simp
  moreover have "distinct (labelCalls (calls st))" unfolding early(5) by simp
  moreover have "set (labelCalls (calls st)) \<subseteq> epicLabels (epics st) \<union> {Some ''Epic''}"
    unfolding early(5) by simp
  ultimately show ?thesis by blast
next
  case (epic rid pinfo e)
  note l = epicPhase_labels[OF epic(1)]
  have ns: "filter isStoryCall (calls st) = []" using l by blast
  have "(\<exists>c\<in>set (calls st). isEpicCall c \<or> isStoryCall c) \<Longrightarrow> (\<exists>c\<in>set (calls st). isEpicCall c)"
  proof -
    assume "\<exists>c\<in>set (calls st). isEpicCall c \<or> isStoryCall c"
    then obtain c where c: "c \<in> set (calls st)" "isEpicCall c \<or> isStoryCall c" by blast
    have "\<not> isStoryCall c"
    proof
      assume "isStoryCall c"
      with c(1) have "c \<in> set (filter isStoryCall (calls st))" by simp
      then show False unfolding ns by simp
    qed
    with c show ?thesis by blast
  qed
  note imp = this
  have i: "Inl e = Inr () \<or> (\<exists>c\<in>set (calls st). isEpicCall c \<or> isStoryCall c) \<longrightarrow>
          set (labelCalls (calls st)) = epicLabels (epics st) \<union> {Some ''Epic''}
          \<and> dom (labelsByName st) = set (labelCalls (calls st))"
  proof
    assume "Inl e = Inr () \<or> (\<exists>c\<in>set (calls st). isEpicCall c \<or> isStoryCall c)"
    then have "\<exists>c\<in>set (calls st). isEpicCall c \<or> isStoryCall c" by simp
    then have "\<exists>c\<in>set (calls st). isEpicCall c" by (rule imp)
    then have "Inl e = Inr () \<or> (\<exists>c\<in>set (calls st). isEpicCall c)" ..
    with l[THEN conjunct2, THEN conjunct2, THEN conjunct1]
    show "set (labelCalls (calls st)) = epicLabels (epics st) \<union> {Some ''Epic''}
          \<and> dom (labelsByName st) = set (labelCalls (calls st))" by (rule mp)
  qed
  show ?thesis unfolding epic(2)
    using l[THEN conjunct1] l[THEN conjunct2, THEN conjunct1] i by (intro conjI)
next
  case (story rid pinfo st3)
  note l = epicPhase_labels[OF story(1)]
  note f = storyPhase_frame[OF story(2)]
  have e1: "labelCalls (calls st) = labelCalls (calls st3)" using f by (elim conjE)
  have e2: "epics st = epics st3" using f by (elim conjE)
  have e3: "labelsByName st = labelsByName st3" using f by (elim conjE)
  have "Inr () = Inr () \<or> (\<exists>c\<in>set (calls st3). isEpicCall c)" by simp
  with l[THEN conjunct2, THEN conjunct2, THEN conjunct1]
  have i: "set (labelCalls (calls st3)) = epicLabels (epics st3) \<union> {Some ''Epic''}
          \<and> dom (labelsByName st3) = set (labelCalls (calls st3))" by (rule mp)
  show ?thesis unfolding e1 e2 e3
    using l[THEN conjunct1] l[THEN conjunct2, THEN conjunct1] i[THEN conjunct1] i[THEN conjunct2]
    by (intro conjI impI)
qed

text \<open>
  On \<open>fs_board\<close> the epics \<^verbatim>\<open>001\<close> and \<^verbatim>\<open>002\<close> share the label \<^verbatim>\<open>backend\<close>, which is
  resolved by one call.
\<close>

theorem C3_labels_resolved_once_witness:
  "fst (run fs_board) = Inr ()
   \<and> labelCalls (calls (snd (run fs_board))) = [Some ''backend'', Some ''Epic'']
   \<and> set (labelCalls (calls (snd (run fs_board))))
       = epicLabels (epics (snd (run fs_board))) \<union> {Some ''Epic''}
   \<and> dom (labelsByName (snd (run fs_board))) = {Some ''backend'', Some ''Epic''}"
proof -
  have h: "fst (run fs_board) = Inr ()" by code_simp
  have l: "labelCalls (calls (snd (run fs_board))) = [Some ''backend'', Some ''Epic'']"
    by code_simp
  have "createIssues tracker (parse_table tab) cfg0 fs_board = (fst (run fs_board), snd (run fs_board))"
    by (simp add: run_def)
  from C3_labels_resolved_once[OF this] h l show ?thesis by simp
qed

text \<open>
  C1 as the specification states it: the label identifier passed for a story is that of
  the label of its owning epic.  On \<open>fs_label\<close> the story file \<^verbatim>\<open>001-001-a.md\<close> of the epic
  \<^verbatim>\<open>001\<close>, whose label is \<^verbatim>\<open>backend\<close>, carries the label \<^verbatim>\<open>frontend\<close> of the epic \<^verbatim>\<open>002\<close>:
  the story is created with the identifier of \<^verbatim>\<open>frontend\<close>.
\<close>

theorem C1_story_label_counterexample:
  "filter isStoryCall (calls (snd (run fs_label)))
     = [CreateIssueAddToProject ''R'' () ''o'' ''r'' (Some ''I-Epic One'') ''Story A'' ''sa''
          (Some ''L-frontend'')]
   \<and> spec_labelId (snd (run fs_label)) ''001-001-a.md'' = Some ''L-backend''"
  by code_simp

text \<open>
  C1, amended.  Every \<^verbatim>\<open>createIssueAddToProject\<close> call of a run is made for a story of
  \<^verbatim>\<open>storiesWithEpic\<close>, whose frontmatter is the one the parser gave for a story file, and
  the label identifier it passes is \<^verbatim>\<open>labelsByName\<close> applied to the label in that
  frontmatter, the story's own (line 145); it is \<^verbatim>\<open>undefined\<close> when no label of that name
  was resolved.
\<close>

theorem C1_story_label:
  assumes "createIssues cl p cfg fs = (r, st)"
  shows "\<forall>c\<in>set (calls st). isStoryCall c \<longrightarrow>
           (\<exists>s\<in>set (storiesWithEpic st). \<exists>rid pinfo.
              c = CreateIssueAddToProject rid pinfo (owner cfg) (repo cfg) (epic_issueId s)
                    (story_title s) (storyBody s) (labelsByName st (label (frontmatter s)))
              \<and> (\<exists>fc\<in>set (mdFiles (storiesDir fs)). \<exists>m.
                    p (snd fc) = Inr m \<and> frontmatter s = frontmatter m))"
  using assms
proof (cases rule: createIssues_stories)
  case (aborted e)
  show ?thesis
  proof (intro ballI impI)
    fix c assume "c \<in> set (calls st)" "isStoryCall c"
    then have "c \<in> set (filter isStoryCall (calls st))" by simp
    then show "\<exists>s\<in>set (storiesWithEpic st). \<exists>rid pinfo.
              c = CreateIssueAddToProject rid pinfo (owner cfg) (repo cfg) (epic_issueId s)
                    (story_title s) (storyBody s) (labelsByName st (label (frontmatter s)))
              \<and> (\<exists>fc\<in>set (mdFiles (storiesDir fs)). \<exists>m.
                    p (snd fc) = Inr m \<and> frontmatter s = frontmatter m)"
      unfolding aborted(3) by simp
  qed
next
  case (mapped order ss rid pinfo n)
  show ?thesis
  proof (intro ballI impI)
    fix c assume "c \<in> set (calls st)" "isStoryCall c"
    then have "c \<in> set (filter isStoryCall (calls st))" by simp
    then have "c \<in> storyCall rid pinfo cfg ` set (take n (sort_key priority ss))"
      unfolding mapped(5) by simp
    then obtain s where s: "s \<in> set (take n (sort_key priority ss))" "c = storyCall rid pinfo cfg s"
      by blast
    from s(1) have sin: "s \<in> set (sort_key priority ss)" by (rule in_set_takeD)
    then have sss: "s \<in> set ss" by simp
    from mapped_story_label[OF mapped(2) sss]
    have l: "epic_labelId s = labelsByName st (label (frontmatter s))" .
    from mapped_story_source[OF mapped(2) sss]
    have src: "\<exists>fc\<in>set (mdFiles (storiesDir fs)). \<exists>m.
                    p (snd fc) = Inr m \<and> frontmatter s = frontmatter m" by blast
    have "c = CreateIssueAddToProject rid pinfo (owner cfg) (repo cfg) (epic_issueId s)
                    (story_title s) (storyBody s) (labelsByName st (label (frontmatter s)))"
      unfolding s(2) storyCall_def l ..
    moreover have "s \<in> set (storiesWithEpic st)" unfolding mapped(3) by (rule sin)
    ultimately show "\<exists>s\<in>set (storiesWithEpic st). \<exists>rid pinfo.
              c = CreateIssueAddToProject rid pinfo (owner cfg) (repo cfg) (epic_issueId s)
                    (story_title s) (storyBody s) (labelsByName st (label (frontmatter s)))
              \<and> (\<exists>fc\<in>set (mdFiles (storiesDir fs)). \<exists>m.
                    p (snd fc) = Inr m \<and> frontmatter s = frontmatter m)"
      using src by blast
  qed
qed

theorem C1_story_label_witness:
  "isStoryCall (CreateIssueAddToProject ''R'' () ''o'' ''r'' (Some ''I-Epic One'') ''Story A''
       ''sa'' (Some ''L-frontend'') :: unit call)
   \<and> CreateIssueAddToProject ''R'' () ''o'' ''r'' (Some ''I-Epic One'') ''Story A''
       ''sa'' (Some ''L-frontend'') \<in> set (calls (snd (run fs_label)))
   \<and> (\<exists>s\<in>set (storiesWithEpic (snd (run fs_label))). \<exists>rid pinfo.
         CreateIssueAddToProject ''R'' () ''o'' ''r'' (Some ''I-Epic One'') ''Story A'' ''sa''
           (Some ''L-frontend'')
         = CreateIssueAddToProject rid pinfo (owner cfg0) (repo cfg0) (epic_issueId s)
             (story_title s) (storyBody s)
             (labelsByName (snd (run fs_label)) (label (frontmatter s)))
         \<and> (\<exists>fc\<in>set (mdFiles (storiesDir fs_label)). \<exists>m.
               parse_table tab (snd fc) = Inr m \<and> frontmatter s = frontmatter m))"
proof -
  let ?c = "CreateIssueAddToProject ''R'' () ''o'' ''r'' (Some ''I-Epic One'') ''Story A''
       ''sa'' (Some ''L-frontend'') :: unit call"
  have m: "?c \<in> set (calls (snd (run fs_label)))" by code_simp
  have i: "isStoryCall ?c" by simp
  have "createIssues tracker (parse_table tab) cfg0 fs_label
          = (fst (run fs_label), snd (run fs_label))"
    by (simp add: run_def)
  from i m C1_story_label[OF this, THEN bspec, OF m, THEN mp, OF i] show ?thesis by (intro conjI)
qed

text \<open>
  C4 as the specification states it: the stories are created in strictly ascending
  order of priority.  On \<open>fs_twins\<close> the story files \<^verbatim>\<open>001-001-a.md\<close> and \<^verbatim>\<open>001-001-b.md\<close>
  have the same first two segments, hence the same identity \<^verbatim>\<open>001-001\<close>: both get the
  priority 1, and both are created.
\<close>

theorem C4_priority_order_counterexample:
  "fst (run fs_twins) = Inr ()
   \<and> map priority (storiesWithEpic (snd (run fs_twins))) = [1, 1]
   \<and> map story_title (storiesWithEpic (snd (run fs_twins)))
       = [''Story A'', ''As a dev, I want to build'']
   \<and> length (filter isStoryCall (calls (snd (run fs_twins)))) = 2"
  by code_simp

text \<open>
  C4, amended.  In every run \<^verbatim>\<open>storiesWithEpic\<close> is in ascending order of priority, and
  the \<^verbatim>\<open>createIssueAddToProject\<close> calls are made for its stories in that order (for all
  of them when the run ends without error, for the first \<open>n\<close> otherwise).  When the
  stories have been mapped, there is for each story file, in the order of the files, the
  story that lines 119-151 make of it; its identity is in the manifest and its priority
  is 1 plus the index of that identity in the manifest.  \<^verbatim>\<open>storiesWithEpic\<close> is the stable
  sort of these stories by priority: the stories of one priority stay in the order of
  their files.  The order is strict when no two story files have the same identity.
\<close>

theorem C4_priority_order:
  assumes "createIssues cl p cfg fs = (r, st)"
  shows "sorted (map priority (storiesWithEpic st))
    \<and> (\<exists>rid pinfo n. n \<le> length (storiesWithEpic st)
          \<and> filter isStoryCall (calls st)
              = map (\<lambda>s. CreateIssueAddToProject rid pinfo (owner cfg) (repo cfg)
                           (epic_issueId s) (story_title s) (storyBody s) (epic_labelId s))
                  (take n (storiesWithEpic st))
          \<and> (r = Inr () \<longrightarrow> n = length (storiesWithEpic st)))
    \<and> (r = Inr () \<or> storiesWithEpic st \<noteq> [] \<longrightarrow>
          (\<exists>order ss. priorityFile fs = Inr order \<and> storiesWithEpic st = sort_key priority ss
             \<and> list_all2 (\<lambda>fc s. mkStory p order st fc = Inr s
                    \<and> storyId (fst fc) \<in> set order
                    \<and> priority s = indexOf order (storyId (fst fc)) + 1)
                  (mdFiles (storiesDir fs)) ss
             \<and> (\<forall>k. filter (\<lambda>s. priority s = k) (storiesWithEpic st)
                      = filter (\<lambda>s. priority s = k) ss)))
    \<and> (distinct (map (\<lambda>fc. storyId (fst fc)) (mdFiles (storiesDir fs))) \<longrightarrow>
          sorted_wrt (<) (map priority (storiesWithEpic st)))"
  using assms
proof (cases rule: createIssues_stories)
  case (aborted e)
  let ?call = "\<lambda>rid pinfo s. CreateIssueAddToProject rid pinfo (owner cfg) (repo cfg)
                           (epic_issueId s) (story_title s) (storyBody s) (epic_labelId s)"
  have 1: "sorted (map priority (storiesWithEpic st))" unfolding aborted(2) by simp
  have "0 \<le> length (storiesWithEpic st)
          \<and> filter isStoryCall (calls st)
              = map (?call undefined undefined) (take 0 (storiesWithEpic st))
          \<and> (r = Inr () \<longrightarrow> 0 = length (storiesWithEpic st))"
    unfolding aborted by simp
  then have 2: "\<exists>rid pinfo n. n \<le> length (storiesWithEpic st)
          \<and> filter isStoryCall (calls st)
              = map (?call rid pinfo) (take n (storiesWithEpic st))
          \<and> (r = Inr () \<longrightarrow> n = length (storiesWithEpic st))" by blast
  have 3: "r = Inr () \<or> storiesWithEpic st \<noteq> [] \<longrightarrow>
          (\<exists>order ss. priorityFile fs = Inr order \<and> storiesWithEpic st = sort_key priority ss
             \<and> list_all2 (\<lambda>fc s. mkStory p order st fc = Inr s
                    \<and> storyId (fst fc) \<in> set order
                    \<and> priority s = indexOf order (storyId (fst fc)) + 1)
                  (mdFiles (storiesDir fs)) ss
             \<and> (\<forall>k. filter (\<lambda>s. priority s = k) (storiesWithEpic st)
                      = filter (\<lambda>s. priority s = k) ss))"
    unfolding aborted(1,2) by simp
  have 4: "distinct (map (\<lambda>fc. storyId (fst fc)) (mdFiles (storiesDir fs))) \<longrightarrow>
          sorted_wrt (<) (map priority (storiesWithEpic st))"
    unfolding aborted(2) by simp
  from 1 2 3 4 show ?thesis by (intro conjI)
next
  case (mapped order ss rid pinfo n)
  let ?call = "\<lambda>rid pinfo s. CreateIssueAddToProject rid pinfo (owner cfg) (repo cfg)
                           (epic_issueId s) (story_title s) (storyBody s) (epic_labelId s)"
  note pr = mapped_stories[OF mapped(2)]
  have sc: "storyCall rid pinfo cfg = ?call rid pinfo"
    by (rule ext) (simp add: storyCall_def)
  have 1: "sorted (map priority (storiesWithEpic st))" unfolding mapped(3) by (rule sorted_sort_key)
  have "n \<le> length (storiesWithEpic st)
          \<and> filter isStoryCall (calls st)
              = map (?call rid pinfo) (take n (storiesWithEpic st))
          \<and> (r = Inr () \<longrightarrow> n = length (storiesWithEpic st))"
    unfolding mapped(3) using mapped(4,5,6) unfolding sc by simp
  then have 2: "\<exists>rid pinfo n. n \<le> length (storiesWithEpic st)
          \<and> filter isStoryCall (calls st)
              = map (?call rid pinfo) (take n (storiesWithEpic st))
          \<and> (r = Inr () \<longrightarrow> n = length (storiesWithEpic st))" by blast
  have st: "\<forall>k. filter (\<lambda>s. priority s = k) (storiesWithEpic st)
                      = filter (\<lambda>s. priority s = k) ss"
    unfolding mapped(3) by (simp add: sort_key_stable)
  have 3: "r = Inr () \<or> storiesWithEpic st \<noteq> [] \<longrightarrow>
          (\<exists>order ss. priorityFile fs = Inr order \<and> storiesWithEpic st = sort_key priority ss
             \<and> list_all2 (\<lambda>fc s. mkStory p order st fc = Inr s
                    \<and> storyId (fst fc) \<in> set order
                    \<and> priority s = indexOf order (storyId (fst fc)) + 1)
                  (mdFiles (storiesDir fs)) ss
             \<and> (\<forall>k. filter (\<lambda>s. priority s = k) (storiesWithEpic st)
                      = filter (\<lambda>s. priority s = k) ss))"
    using mapped(1,3) pr st by blast
  have 4: "distinct (map (\<lambda>fc. storyId (fst fc)) (mdFiles (storiesDir fs))) \<longrightarrow>
          sorted_wrt (<) (map priority (storiesWithEpic st))"
  proof
    assume "distinct (map (\<lambda>fc. storyId (fst fc)) (mdFiles (storiesDir fs)))"
    with mapped_stories_weaken[OF pr] have "distinct (map priority ss)"
      by (rule distinct_priorities)
    then have "distinct (map priority (sort_key priority ss))" by (simp only: distinct_sort_key)
    with 1 show "sorted_wrt (<) (map priority (storiesWithEpic st))"
      unfolding mapped(3) by (simp only: strict_sorted_iff)
  qed
  from 1 2 3 4 show ?thesis by (intro conjI)
qed

text \<open>
  On \<open>fs_board\<close> the manifest lists \<^verbatim>\<open>001-002\<close> before \<^verbatim>\<open>001-001\<close>: the story of the
  second file is created first.  On \<open>fs_twins\<close> the two stories have the priority 1 and
  stay in the order of their files.
\<close>

theorem C4_priority_order_witness:
  "fst (run fs_board) = Inr ()
   \<and> distinct (map (\<lambda>fc. storyId (fst fc)) (mdFiles (storiesDir fs_board)))
   \<and> map story_title (storiesWithEpic (snd (run fs_board)))
       = [''As a dev, I want to build'', ''Story A'']
   \<and> sorted_wrt (<) (map priority (storiesWithEpic (snd (run fs_board))))
   \<and> (\<exists>order ss. priorityFile fs_board = Inr order
          \<and> storiesWithEpic (snd (run fs_board)) = sort_key priority ss
          \<and> list_all2 (\<lambda>fc s. mkStory (parse_table tab) order (snd (run fs_board)) fc = Inr s
                 \<and> storyId (fst fc) \<in> set order
                 \<and> priority s = indexOf order (storyId (fst fc)) + 1)
               (mdFiles (storiesDir fs_board)) ss
          \<and> (\<forall>k. filter (\<lambda>s. priority s = k) (storiesWithEpic (snd (run fs_board)))
                   = filter (\<lambda>s. priority s = k) ss))
   \<and> fst (run fs_twins) = Inr ()
   \<and> map story_title (storiesWithEpic (snd (run fs_twins)))
       = [''Story A'', ''As a dev, I want to build'']
   \<and> (\<exists>order ss. priorityFile fs_twins = Inr order
          \<and> storiesWithEpic (snd (run fs_twins)) = sort_key priority ss
          \<and> list_all2 (\<lambda>fc s. mkStory (parse_table tab) order (snd (run fs_twins)) fc = Inr s
                 \<and> storyId (fst fc) \<in> set order
                 \<and> priority s = indexOf order (storyId (fst fc)) + 1)
               (mdFiles (storiesDir fs_twins)) ss
          \<and> (\<forall>k. filter (\<lambda>s. priority s = k) (storiesWithEpic (snd (run fs_twins)))
                   = filter (\<lambda>s. priority s = k) ss))"
proof -
  have h: "fst (run fs_board) = Inr ()" by code_simp
  have d: "distinct (map (\<lambda>fc. storyId (fst fc)) (mdFiles (storiesDir fs_board)))"
    by code_simp
  have t: "map story_title (storiesWithEpic (snd (run fs_board)))
       = [''As a dev, I want to build'', ''Story A'']" by code_simp
  have h': "fst (run fs_twins) = Inr ()" by code_simp
  have t': "map story_title (storiesWithEpic (snd (run fs_twins)))
       = [''Story A'', ''As a dev, I want to build'']" by code_simp
  have "createIssues tracker (parse_table tab) cfg0 fs_board
          = (fst (run fs_board), snd (run fs_board))"
    by (simp add: run_def)
  note c = C4_priority_order[OF this]
  have "createIssues tracker (parse_table tab) cfg0 fs_twins
          = (fst (run fs_twins), snd (run fs_twins))"
    by (simp add: run_def)
  note c' = C4_priority_order[OF this]
  from h d t c[THEN conjunct2, THEN conjunct2, THEN conjunct2, THEN mp, OF d]
    c[THEN conjunct2, THEN conjunct2, THEN conjunct1, THEN mp, OF disjI1, OF h]
    h' t' c'[THEN conjunct2, THEN conjunct2, THEN conjunct1, THEN mp, OF disjI1, OF h']
  show ?thesis by (intro conjI)
qed

text \<open>
  C5 as the specification states it: every story whose identity is not in the manifest
  makes the run fail with the error that names its file.  On \<open>fs_both_unlisted\<close> the
  manifest is empty and there are two story files: the run ends at the first, and its
  error names \<^verbatim>\<open>001-001-a.md\<close>, not the second unlisted file \<^verbatim>\<open>001-002-b.md\<close>.
\<close>

theorem C5_unlisted_story_counterexample:
  "(''001-002-b.md'', ''story b'') \<in> set (mdFiles (storiesDir fs_both_unlisted))
   \<and> priorityFile fs_both_unlisted = Inr []
   \<and> storyId ''001-002-b.md'' \<notin> set []
   \<and> fst (run fs_both_unlisted)
       = Inl (Error ''Story 001-001-a.md not found in priority order'')
   \<and> fst (run fs_both_unlisted)
       \<noteq> Inl (Error ''Story 001-002-b.md not found in priority order'')"
  by code_simp

text \<open>
  C5, amended.  When the identity of a story file is not in the manifest, the run ends
  with an exception and makes no \<^verbatim>\<open>createIssueAddToProject\<close> call, for that story or any
  other.  The exception names that file when it is the first to fail: when the run gets
  as far as the stories, the files before that one map without an exception and the
  parser accepts that file, the exception is
  \<^verbatim>\<open>Story <file> not found in priority order\<close> (line 128) and the state is the one the
  epic phase left: no call is made after the epics.
\<close>

theorem C5_unlisted_story:
  assumes "createIssues cl p cfg fs = (r, st)" and "priorityFile fs = Inr order"
    and "(name, content) \<in> set (mdFiles (storiesDir fs))" and "storyId name \<notin> set order"
  shows "(\<exists>e. r = Inl e) \<and> filter isStoryCall (calls st) = []
    \<and> (\<forall>rid pinfo pre post m.
          reachesStories cl p cfg fs rid pinfo
          \<and> mdFiles (storiesDir fs) = pre @ (name, content) # post
          \<and> \<not> isl (mapE (mkStory p order st) pre) \<and> p content = Inr m \<longrightarrow>
          r = Inl (Error (''Story '' @ name @ '' not found in priority order''))
          \<and> st = snd (epicPhase cl p cfg fs rid pinfo (start cfg)))"
proof -
  have 1: "(\<exists>e. r = Inl e) \<and> filter isStoryCall (calls st) = []"
    using assms(1)
  proof (cases rule: createIssues_stories)
    case (aborted e)
    then show ?thesis by simp
  next
    case (mapped order' ss rid pinfo n)
    with assms(2) have "mapE (mkStory p order st) (mdFiles (storiesDir fs)) = Inr ss" by simp
    from mapE_Inr_mem[OF this assms(3)] obtain s where "mkStory p order st (name, content) = Inr s" ..
    then have "storyId name \<in> set order" by (rule mkStory_Inr)
    with assms(4) show ?thesis by simp
  qed
  have 2: "\<forall>rid pinfo pre post m.
          reachesStories cl p cfg fs rid pinfo
          \<and> mdFiles (storiesDir fs) = pre @ (name, content) # post
          \<and> \<not> isl (mapE (mkStory p order st) pre) \<and> p content = Inr m \<longrightarrow>
          r = Inl (Error (''Story '' @ name @ '' not found in priority order''))
          \<and> st = snd (epicPhase cl p cfg fs rid pinfo (start cfg))"
  proof (intro allI impI, elim conjE)
    fix rid pinfo pre post m
    let ?st3 = "snd (epicPhase cl p cfg fs rid pinfo (start cfg))"
    let ?e = "Error (''Story '' @ name @ '' not found in priority order'')"
    assume re: "reachesStories cl p cfg fs rid pinfo"
      and files: "mdFiles (storiesDir fs) = pre @ (name, content) # post"
      and pre: "\<not> isl (mapE (mkStory p order st) pre)" and m: "p content = Inr m"
    note rf = reaches_storyPhase[OF re assms(1)] reaches_mkStory[OF re assms(1), of order]
    have "mkStory p order ?st3 (name, content) = Inl ?e"
      using m assms(4) by (rule mkStory_unlisted)
    with pre have "mapE (mkStory p order ?st3) (pre @ (name, content) # post) = Inl ?e"
      unfolding rf(2) by (rule mapE_isl)
    then have "mapE (mkStory p order ?st3) (mdFiles (storiesDir fs)) = Inl ?e"
      unfolding files .
    with assms(2) have "storyPhase cl p cfg fs rid pinfo ?st3 = (Inl ?e, ?st3)"
      by (rule storyPhase_invalid)
    with rf(1) show "r = Inl ?e \<and> st = ?st3" by simp
  qed
  from 1 2 show ?thesis by (intro conjI) blast+
qed

text \<open>
  On \<open>fs_unlisted\<close> the manifest lists \<^verbatim>\<open>001-001\<close> only, and the second story file is
  \<^verbatim>\<open>001-002-b.md\<close>.
\<close>

theorem C5_unlisted_story_witness:
  "reachesStories tracker (parse_table tab) cfg0 fs_unlisted ''R'' ()
   \<and> storyId ''001-002-b.md'' \<notin> set [''001-001'']
   \<and> fst (run fs_unlisted) = Inl (Error ''Story 001-002-b.md not found in priority order'')
   \<and> filter isStoryCall (calls (snd (run fs_unlisted))) = []"
proof -
  have a1: "createIssues tracker (parse_table tab) cfg0 fs_unlisted
          = (fst (run fs_unlisted), snd (run fs_unlisted))"
    by (simp add: run_def)
  have a2: "priorityFile fs_unlisted = Inr [''001-001'']" by (simp add: fs_unlisted_def)
  have a3: "(''001-002-b.md'', ''story b'') \<in> set (mdFiles (storiesDir fs_unlisted))"
    by code_simp
  have a4: "storyId ''001-002-b.md'' \<notin> set [''001-001'']" by code_simp
  have h1: "reachesStories tracker (parse_table tab) cfg0 fs_unlisted ''R'' ()" by code_simp
  have h2: "mdFiles (storiesDir fs_unlisted)
      = [(''001-001-a.md'', ''story a'')] @ (''001-002-b.md'', ''story b'') # []" by code_simp
  have h3: "\<not> isl (mapE (mkStory (parse_table tab) [''001-001''] (snd (run fs_unlisted)))
                [(''001-001-a.md'', ''story a'')])" by code_simp
  have h4: "parse_table tab ''story b''
      = Inr (md (Some ''Story B'') (Some ''backend'') (Some ''dev'') (Some ''build'')
           (Some ''ship'') ''sb'')" by code_simp
  note c = C5_unlisted_story[OF a1 a2 a3 a4]
  from c[THEN conjunct2, THEN conjunct2, THEN spec, THEN spec, THEN spec, THEN spec, THEN spec,
         THEN mp, OF conjI[OF h1 conjI[OF h2 conjI[OF h3 h4]]]]
  have "fst (run fs_unlisted) = Inl (Error (''Story '' @ ''001-002-b.md'' @ '' not found in priority order''))"
    by (rule conjunct1)
  then have "fst (run fs_unlisted) = Inl (Error ''Story 001-002-b.md not found in priority order'')"
    by simp
  with h1 a4 c[THEN conjunct2, THEN conjunct1] show ?thesis by (intro conjI)
qed

text \<open>
  C6 as the specification states it: a story file whose first segment matches no epic
  makes the run fail with a HierarchyError that names the file.  On \<open>fs_orphan\<close> the
  story file \<^verbatim>\<open>009-001-a.md\<close> is listed and titled, and there is no epic \<^verbatim>\<open>009\<close>: line 146
  reads \<^verbatim>\<open>issueId\<close> of \<^verbatim>\<open>undefined\<close>, and the run ends with the engine's \<^verbatim>\<open>TypeError\<close>,
  which carries no file name.
\<close>

theorem C6_orphan_story_counterexample:
  "fst (run fs_orphan) = Inl TypeError
   \<and> filter isStoryCall (calls (snd (run fs_orphan))) = []"
  by code_simp

text \<open>
  C6, amended.  When the first segment of a story file is neither the key of an epic
  file nor a name that objects inherit, the run ends with an exception and makes no
  \<^verbatim>\<open>createIssueAddToProject\<close> call.  When the run gets as far as the stories, the files
  before that one map without an exception, and that file is parsed, listed and titled,
  the exception is the \<^verbatim>\<open>TypeError\<close> of line 146 and no call is made after the epics.
  (On an inherited name such as \<^verbatim>\<open>constructor\<close> line 146 reads \<^verbatim>\<open>undefined\<close> without an
  exception; \<open>inherited_name_story_created\<close> runs that case.)
\<close>

theorem C6_orphan_story:
  assumes "createIssues cl p cfg fs = (r, st)"
    and "(name, content) \<in> set (mdFiles (storiesDir fs))"
    and "fst (segments name) \<notin> epicKey ` set (mdFiles (epicsDir fs))"
    and "fst (segments name) \<notin> set objectPrototypeKeys"
  shows "(\<exists>e. r = Inl e) \<and> filter isStoryCall (calls st) = []
    \<and> (\<forall>rid pinfo order pre post m.
          reachesStories cl p cfg fs rid pinfo \<and> priorityFile fs = Inr order
          \<and> mdFiles (storiesDir fs) = pre @ (name, content) # post
          \<and> \<not> isl (mapE (mkStory p order st) pre) \<and> p content = Inr m
          \<and> storyId name \<in> set order \<and> truthy (storyTitle (frontmatter m)) \<longrightarrow>
          r = Inl TypeError \<and> st = snd (epicPhase cl p cfg fs rid pinfo (start cfg)))"
proof -
  have nk: "fst (segments name) \<notin> set (map fst (epics st))"
    using run_epic_keys[OF assms(1)] assms(3) by blast
  have 1: "(\<exists>e. r = Inl e) \<and> filter isStoryCall (calls st) = []"
    using assms(1)
  proof (cases rule: createIssues_stories)
    case (aborted e)
    then show ?thesis by simp
  next
    case (mapped order ss rid pinfo n)
    from mapE_Inr_mem[OF mapped(2) assms(2)] obtain s
      where "mkStory p order st (name, content) = Inr s" ..
    then show ?thesis
    proof (rule mkStory_Inr)
      fix m assume "p content = Inr m" "storyId name \<in> set order"
        "truthy (storyTitle (frontmatter m))"
        "epic_issueId_of (epics st) (fst (segments name)) = Inr (epic_issueId s)"
      moreover from this(1,2,3) nk assms(4)
      have "mkStory p order st (name, content) = Inl TypeError" by (rule mkStory_orphan)
      ultimately show ?thesis using \<open>mkStory p order st (name, content) = Inr s\<close> by simp
    qed
  qed
  have 2: "\<forall>rid pinfo order pre post m.
          reachesStories cl p cfg fs rid pinfo \<and> priorityFile fs = Inr order
          \<and> mdFiles (storiesDir fs) = pre @ (name, content) # post
          \<and> \<not> isl (mapE (mkStory p order st) pre) \<and> p content = Inr m
          \<and> storyId name \<in> set order \<and> truthy (storyTitle (frontmatter m)) \<longrightarrow>
          r = Inl TypeError \<and> st = snd (epicPhase cl p cfg fs rid pinfo (start cfg))"
  proof (intro allI impI, elim conjE)
    fix rid pinfo order pre post m
    let ?st3 = "snd (epicPhase cl p cfg fs rid pinfo (start cfg))"
    assume re: "reachesStories cl p cfg fs rid pinfo" and pf: "priorityFile fs = Inr order"
      and files: "mdFiles (storiesDir fs) = pre @ (name, content) # post"
      and pre: "\<not> isl (mapE (mkStory p order st) pre)" and m: "p content = Inr m"
      and listed: "storyId name \<in> set order" and t: "truthy (storyTitle (frontmatter m))"
    note sp = reaches_storyPhase[OF re assms(1)]
    note mk = reaches_mkStory[OF re assms(1), of order]
    have "mkStory p order st (name, content) = Inl TypeError"
      using m listed t nk assms(4) by (rule mkStory_orphan)
    with pre have "mapE (mkStory p order st) (pre @ (name, content) # post) = Inl TypeError"
      by (rule mapE_isl)
    then have "mapE (mkStory p order ?st3) (mdFiles (storiesDir fs)) = Inl TypeError"
      unfolding files mk .
    with pf have "storyPhase cl p cfg fs rid pinfo ?st3 = (Inl TypeError, ?st3)"
      by (rule storyPhase_invalid)
    with sp show "r = Inl TypeError \<and> st = ?st3" by simp
  qed
  from 1 2 show ?thesis by (intro conjI) blast+
qed

theorem C6_orphan_story_witness:
  "reachesStories tracker (parse_table tab) cfg0 fs_orphan ''R'' ()
   \<and> fst (segments ''009-001-a.md'') \<notin> epicKey ` set (mdFiles (epicsDir fs_orphan))
   \<and> fst (segments ''009-001-a.md'') \<notin> set objectPrototypeKeys
   \<and> storyId ''009-001-a.md'' \<in> set [''009-001'']
   \<and> fst (run fs_orphan) = Inl TypeError
   \<and> length (filter isStoryCall (calls (snd (run fs_orphan)))) = 0"
proof -
  let ?m = "md (Some ''Story A'') (Some ''frontend'') None None None ''sa''"
  have a1: "createIssues tracker (parse_table tab) cfg0 fs_orphan
          = (fst (run fs_orphan), snd (run fs_orphan))"
    by (simp add: run_def)
  have a2: "(''009-001-a.md'', ''story a'') \<in> set (mdFiles (storiesDir fs_orphan))"
    by code_simp
  have a3: "fst (segments ''009-001-a.md'') \<notin> epicKey ` set (mdFiles (epicsDir fs_orphan))"
    by code_simp
  have a4: "fst (segments ''009-001-a.md'') \<notin> set objectPrototypeKeys" by code_simp
  have h1: "reachesStories tracker (parse_table tab) cfg0 fs_orphan ''R'' ()" by code_simp
  have h2: "priorityFile fs_orphan = Inr [''009-001'']" by (simp add: fs_orphan_def)
  have h3: "mdFiles (storiesDir fs_orphan) = [] @ (''009-001-a.md'', ''story a'') # []"
    by code_simp
  have h4: "\<not> isl (mapE (mkStory (parse_table tab) [''009-001''] (snd (run fs_orphan))) [])"
    by simp
  have h5: "parse_table tab ''story a'' = Inr ?m" by code_simp
  have h6: "storyId ''009-001-a.md'' \<in> set [''009-001'']" by code_simp
  have h7: "truthy (storyTitle (frontmatter ?m))" by code_simp
  note c = C6_orphan_story[OF a1 a2 a3 a4]
  from c[THEN conjunct2, THEN conjunct2, THEN spec, THEN spec, THEN spec, THEN spec, THEN spec,
         THEN spec, THEN mp,
         OF conjI[OF h1 conjI[OF h2 conjI[OF h3 conjI[OF h4 conjI[OF h5 conjI[OF h6 h7]]]]]]]
  have e: "fst (run fs_orphan) = Inl TypeError" by (rule conjunct1)
  from c[THEN conjunct2, THEN conjunct1]
  have "length (filter isStoryCall (calls (snd (run fs_orphan)))) = 0" by simp
  with h1 a3 a4 h6 e show ?thesis by (intro conjI)
qed

text \<open>
  C8 as the specification states it: the body of an epic issue is the sentence when the
  triple of role, action and benefit is present, and empty otherwise.  On \<open>fs_role\<close> the
  epic has a role and neither action nor benefit: the body is not empty, the two missing
  fields print as \<^verbatim>\<open>undefined\<close>.
\<close>

theorem C8_epic_body_counterexample:
  "filter isEpicCall (calls (snd (run fs_role)))
     = [CreateIssue ''R'' () ''o'' ''r'' (Some ''Epic R'')
          ''As a user, I want to undefined so that undefined.'' ''L-Epic'']
   \<and> map_of (bare (epics (snd (run fs_role)))) ''001''
       = Some \<lparr>frontmatter = \<lparr>title = Some ''Epic R'', label = Some ''backend'',
                  role = Some ''user'', action = None, benefit = None\<rparr>,
               description = ''d5'', stories = []\<rparr>"
  by code_simp

text \<open>
  C8, amended.  Every \<^verbatim>\<open>createIssue\<close> call of a run is made for an epic of the mapping,
  with its title, and with a body that the role alone decides (lines 105-107): the
  sentence when the role is present and not empty, a missing action or benefit printing as
  \<^verbatim>\<open>undefined\<close>, and the empty string otherwise.  The description is no part of it.
\<close>

theorem C8_epic_body:
  assumes "createIssues cl p cfg fs = (r, st)"
  shows "\<forall>c\<in>set (calls st). isEpicCall c \<longrightarrow>
     (\<exists>ke\<in>set (epics st). \<exists>rid pinfo lid.
        c = CreateIssue rid pinfo (owner cfg) (repo cfg) (title (frontmatter (epic (snd ke))))
              (if truthy (role (frontmatter (epic (snd ke))))
               then ''As a '' @ str (role (frontmatter (epic (snd ke)))) @ '', I want to ''
                    @ str (action (frontmatter (epic (snd ke)))) @ '' so that ''
                    @ str (benefit (frontmatter (epic (snd ke)))) @ ''.''
               else [])
              lid)"
proof (intro ballI impI)
  fix c assume "c \<in> set (calls st)" "isEpicCall c"
  then have cin: "c \<in> set (filter isEpicCall (calls st))" by simp
  from run_epicCalls[OF assms] obtain rid pinfo m where
    m: "filter isEpicCall (calls st)
       = map (\<lambda>ke. epicCall rid pinfo cfg (snd ke) (epicLabelId st))
           (take m (obj_entries (epics st)))" by blast
  from cin obtain ke where ke: "ke \<in> set (take m (obj_entries (epics st)))"
    "c = epicCall rid pinfo cfg (snd ke) (epicLabelId st)" unfolding m by auto
  from ke(1) have "ke \<in> set (obj_entries (epics st))" by (rule in_set_takeD)
  then have kin: "ke \<in> set (epics st)" by (simp only: set_obj_entries)
  have "c = CreateIssue rid pinfo (owner cfg) (repo cfg) (title (frontmatter (epic (snd ke))))
              (if truthy (role (frontmatter (epic (snd ke))))
               then ''As a '' @ str (role (frontmatter (epic (snd ke)))) @ '', I want to ''
                    @ str (action (frontmatter (epic (snd ke)))) @ '' so that ''
                    @ str (benefit (frontmatter (epic (snd ke)))) @ ''.''
               else [])
              (epicLabelId st)"
    unfolding ke(2) epicCall_def epicBody_def ..
  with kin show "\<exists>ke\<in>set (epics st). \<exists>rid pinfo lid.
        c = CreateIssue rid pinfo (owner cfg) (repo cfg) (title (frontmatter (epic (snd ke))))
              (if truthy (role (frontmatter (epic (snd ke))))
               then ''As a '' @ str (role (frontmatter (epic (snd ke)))) @ '', I want to ''
                    @ str (action (frontmatter (epic (snd ke)))) @ '' so that ''
                    @ str (benefit (frontmatter (epic (snd ke)))) @ ''.''
               else [])
              lid" by blast
qed

text \<open>
  On \<open>fs_board\<close> the epic \<^verbatim>\<open>002\<close> has the whole triple.
\<close>

theorem C8_epic_body_witness:
  "isEpicCall (CreateIssue ''R'' () ''o'' ''r'' (Some ''Epic Three'')
       ''As a user, I want to act so that gain.'' ''L-Epic'' :: unit call)
   \<and> CreateIssue ''R'' () ''o'' ''r'' (Some ''Epic Three'')
       ''As a user, I want to act so that gain.'' ''L-Epic'' \<in> set (calls (snd (run fs_board)))
   \<and> (\<exists>ke\<in>set (epics (snd (run fs_board))). \<exists>rid pinfo lid.
        CreateIssue ''R'' () ''o'' ''r'' (Some ''Epic Three'')
          ''As a user, I want to act so that gain.'' ''L-Epic''
        = CreateIssue rid pinfo (owner cfg0) (repo cfg0) (title (frontmatter (epic (snd ke))))
              (if truthy (role (frontmatter (epic (snd ke))))
               then ''As a '' @ str (role (frontmatter (epic (snd ke)))) @ '', I want to ''
                    @ str (action (frontmatter (epic (snd ke)))) @ '' so that ''
                    @ str (benefit (frontmatter (epic (snd ke)))) @ ''.''
               else [])
              lid)"
proof -
  let ?c = "CreateIssue ''R'' () ''o'' ''r'' (Some ''Epic Three'')
       ''As a user, I want to act so that gain.'' ''L-Epic'' :: unit call"
  have m: "?c \<in> set (calls (snd (run fs_board)))" by code_simp
  have i: "isEpicCall ?c" by simp
  have "createIssues tracker (parse_table tab) cfg0 fs_board
          = (fst (run fs_board), snd (run fs_board))"
    by (simp add: run_def)
  from i m C8_epic_body[OF this, THEN bspec, OF m, THEN mp, OF i] show ?thesis by (intro conjI)
qed

text \<open>
  C7 as the specification states it: a markdown file whose name does not begin with
  digits and the separator makes the run fail with a ParseError.  On \<open>fs_readme\<close> the only
  epic file is \<^verbatim>\<open>readme.md\<close>: line 58 yields \<^verbatim>\<open>undefined\<close>, the epic is kept under the key
  \<^verbatim>\<open>undefined\<close>, its issue is created and the run ends without error.
\<close>

theorem C7_epic_key_counterexample:
  "match_epicNumber ''readme.md'' = None
   \<and> fst (run fs_readme) = Inr ()
   \<and> map fst (epics (snd (run fs_readme))) = [''undefined'']
   \<and> length (filter isEpicCall (calls (snd (run fs_readme)))) = 1"
  by code_simp

text \<open>
  C7, amended.  A file name made of a non-empty run of the digits \<^verbatim>\<open>0\<close> to \<^verbatim>\<open>9\<close> (the
  characters of code 48 to 57), the
  separator \<^verbatim>\<open>-\<close> and any rest matches line 58, and only such a name does; the key derived
  for an epic file of that name is the run of digits, and so is the first segment
  derived for a story file.  These are the keys of the mapping and the segment with which
  a story looks its epic up.  No name is rejected: an epic file whose name does not match
  is kept under the key \<^verbatim>\<open>undefined\<close>; reading the epics fails only with an exception of
  the parser; and a story file fails only with an exception of the parser, with the
  manifest miss of line 128, the missing title of line 136, or the \<^verbatim>\<open>TypeError\<close> of
  line 146.
\<close>

theorem C7_epic_key:
  "(is_digit c \<longleftrightarrow> 48 \<le> (of_char c :: nat) \<and> (of_char c :: nat) \<le> 57)
   \<and> (ds \<noteq> [] \<and> list_all is_digit ds \<longrightarrow>
        match_epicNumber (ds @ CHR ''-'' # rest) = Some ds
        \<and> epicKey (ds @ CHR ''-'' # rest, content) = ds
        \<and> fst (segments (ds @ CHR ''-'' # rest)) = ds)
   \<and> (match_epicNumber file = Some ds \<longrightarrow>
      ds = takeWhile is_digit file \<and> ds \<noteq> [] \<and> list_all is_digit ds
      \<and> (\<exists>rest. file = ds @ CHR ''-'' # rest)
      \<and> epicKey (file, content) = ds \<and> fst (segments file) = ds)
   \<and> (match_epicNumber file = None \<longrightarrow> epicKey (file, content) = ''undefined'')
   \<and> (readEpics p files obj = Inl e \<longrightarrow> (\<exists>fc\<in>set files. p (snd fc) = Inl e))
   \<and> (readEpics p files [] = Inr obj' \<longrightarrow> set (map fst obj') = epicKey ` set files)
   \<and> (mkStory p order st (file, content) = Inl e \<longrightarrow>
        p content = Inl e
        \<or> (storyId file \<notin> set order
            \<and> e = Error (''Story '' @ file @ '' not found in priority order''))
        \<or> e = Error (''Title not set for '' @ file)
        \<or> (fst (segments file) \<notin> set (map fst (epics st)) \<and> e = TypeError))
   \<and> (mkStory p order st (file, content) = Inr s \<longrightarrow>
        epic_issueId_of (epics st) (fst (segments file)) = Inr (epic_issueId s))"
proof (intro conjI impI)
  show "is_digit c \<longleftrightarrow> 48 \<le> (of_char c :: nat) \<and> (of_char c :: nat) \<le> 57"
    by (rule is_digit_iff)
next
  assume a: "ds \<noteq> [] \<and> list_all is_digit ds"
  then have m: "match_epicNumber (ds @ CHR ''-'' # rest) = Some ds"
    by (simp add: match_epicNumber_digits)
  then show "match_epicNumber (ds @ CHR ''-'' # rest) = Some ds" .
  show "epicKey (ds @ CHR ''-'' # rest, content) = ds" by (simp add: epicKey_def m)
  from a have "list_all is_digit ds" by blast
  then have "CHR ''-'' \<notin> set ds" by (rule digits_no_dash)
  then show "fst (segments (ds @ CHR ''-'' # rest)) = ds" by (rule segments_prefix)
next
  assume m: "match_epicNumber file = Some ds"
  note f = match_epicNumber_Some[OF m]
  from f show "ds = takeWhile is_digit file" "ds \<noteq> []" "list_all is_digit ds"
    "\<exists>rest. file = ds @ CHR ''-'' # rest" by blast+
  show "epicKey (file, content) = ds" by (simp add: epicKey_def m)
  from f obtain rest where r: "file = ds @ CHR ''-'' # rest" by blast
  from f have "list_all is_digit ds" by blast
  then have "CHR ''-'' \<notin> set ds" by (rule digits_no_dash)
  then show "fst (segments file) = ds" unfolding r by (rule segments_prefix)
next
  assume "match_epicNumber file = None"
  then show "epicKey (file, content) = ''undefined''" by (simp add: epicKey_def)
next
  assume "readEpics p files obj = Inl e"
  then show "\<exists>fc\<in>set files. p (snd fc) = Inl e" by (rule readEpics_fails)
next
  assume "readEpics p files [] = Inr obj'"
  then show "set (map fst obj') = epicKey ` set files" by (rule readEpics_key_set)
next
  assume "mkStory p order st (file, content) = Inl e"
  then show "p content = Inl e
        \<or> (storyId file \<notin> set order
            \<and> e = Error (''Story '' @ file @ '' not found in priority order''))
        \<or> e = Error (''Title not set for '' @ file)
        \<or> (fst (segments file) \<notin> set (map fst (epics st)) \<and> e = TypeError)"
    by (rule mkStory_Inl)
next
  assume "mkStory p order st (file, content) = Inr s"
  then show "epic_issueId_of (epics st) (fst (segments file)) = Inr (epic_issueId s)"
    by (rule mkStory_Inr)
qed

theorem C7_epic_key_witness:
  "''1'' \<noteq> [] \<and> list_all is_digit ''1''
   \<and> match_epicNumber ''1-foo.md'' = Some ''1''
   \<and> epicKey (''1-foo.md'', ''epic one'') = ''1''
   \<and> fst (segments ''1-foo.md'') = ''1''
   \<and> match_epicNumber ''0123456789-x.md'' = Some ''0123456789''
   \<and> match_epicNumber ''001-one.md'' = Some ''001''
   \<and> ''001'' = takeWhile is_digit ''001-one.md''
   \<and> epicKey (''001-one.md'', ''epic one'') = ''001''
   \<and> fst (segments ''001-one.md'') = ''001''
   \<and> match_epicNumber ''readme.md'' = None
   \<and> epicKey (''readme.md'', ''epic one'') = ''undefined''
   \<and> readEpics (parse_table tab) [(''001-x.md'', ''no such record'')] [] = Inl (Thrown ''malformed'')
   \<and> (\<exists>fc\<in>set [(''001-x.md'', ''no such record'')].
         parse_table tab (snd fc) = Inl (Thrown ''malformed''))
   \<and> map fst (epics (snd (run fs_board))) = [''001'', ''002'']
   \<and> mkStory (parse_table tab) [] (init :: unit state) (''story.md'', ''story a'')
       = Inl (Error ''Story story.md not found in priority order'')
   \<and> storyId ''story.md'' \<notin> set []"
proof -
  let ?e = "Error ''Story story.md not found in priority order''"
  have g: "''1'' \<noteq> [] \<and> list_all is_digit ''1''" by code_simp
  have g2: "''0123456789'' \<noteq> [] \<and> list_all is_digit ''0123456789''" by code_simp
  have m: "match_epicNumber ''001-one.md'' = Some ''001''" by code_simp
  have n: "match_epicNumber ''readme.md'' = None" by code_simp
  have f: "readEpics (parse_table tab) [(''001-x.md'', ''no such record'')] []
      = Inl (Thrown ''malformed'')" by code_simp
  have k: "mkStory (parse_table tab) [] (init :: unit state) (''story.md'', ''story a'') = Inl ?e"
    by code_simp
  have ks: "map fst (epics (snd (run fs_board))) = [''001'', ''002'']" by code_simp
  note z = C7_epic_key[of "CHR ''0''" "''1''" "''foo.md''" "''epic one''" "''001-one.md''"
      "parse_table tab" "[]" "[]" "Thrown ''x''" "[]" "[]" "init :: unit state",
      THEN conjunct2, THEN conjunct1, THEN mp, OF g]
  note z2 = C7_epic_key[of "CHR ''0''" "''0123456789''" "''x.md''" "''epic one''" "''001-one.md''"
      "parse_table tab" "[]" "[]" "Thrown ''x''" "[]" "[]" "init :: unit state",
      THEN conjunct2, THEN conjunct1, THEN mp, OF g2]
  note a = C7_epic_key[of "CHR ''0''" "''001''" "''foo.md''" "''epic one''" "''001-one.md''"
      "parse_table tab" "[]" "[]" "Thrown ''x''" "[]" "[]" "init :: unit state",
      THEN conjunct2, THEN conjunct2, THEN conjunct1, THEN mp, OF m]
  note b = C7_epic_key[of "CHR ''0''" "''001''" "''foo.md''" "''epic one''" "''readme.md''"
      "parse_table tab" "[]" "[]" "Thrown ''x''" "[]" "[]" "init :: unit state",
      THEN conjunct2, THEN conjunct2, THEN conjunct2, THEN conjunct1, THEN mp, OF n]
  note c = C7_epic_key[of "CHR ''0''" "''001''" "''foo.md''" "''epic one''" "''readme.md''"
      "parse_table tab" "[(''001-x.md'', ''no such record'')]" "[]" "Thrown ''malformed''"
      "[]" "[]" "init :: unit state",
      THEN conjunct2, THEN conjunct2, THEN conjunct2, THEN conjunct2, THEN conjunct1, THEN mp, OF f]
  from z have z1: "match_epicNumber ''1-foo.md'' = Some ''1''"
    and z3: "epicKey (''1-foo.md'', ''epic one'') = ''1''"
    and z4: "fst (segments ''1-foo.md'') = ''1''" by simp_all
  from z2 have z5: "match_epicNumber ''0123456789-x.md'' = Some ''0123456789''" by simp
  from a have a1: "''001'' = takeWhile is_digit ''001-one.md''"
    and a2: "epicKey (''001-one.md'', ''epic one'') = ''001''"
    and a3: "fst (segments ''001-one.md'') = ''001''" by blast+
  have d1: "storyId ''story.md'' \<notin> set []" by simp
  from g have g': "''1'' \<noteq> []" "list_all is_digit ''1''" by blast+
  from g' z1 z3 z4 z5 m a1 a2 a3 n b f c ks k d1 show ?thesis by (intro conjI)
qed

text \<open>
  C9 as the specification states it: any error of a story, an unknown epic among them,
  ends the run with no story issue created.  On \<open>fs_inherited\<close> the first segment of the
  story file is \<^verbatim>\<open>constructor\<close>, which is the key of no epic: line 146 reads a name every
  object inherits, no exception is thrown, the run ends without error and the story
  issue is created.
\<close>

theorem C9_stories_validated_first_counterexample:
  "(''constructor-001-a.md'', ''story a'') \<in> set (mdFiles (storiesDir fs_inherited))
   \<and> fst (segments ''constructor-001-a.md'') = ''constructor''
   \<and> map fst (epics (snd (run fs_inherited))) = [''001'']
   \<and> fst (run fs_inherited) = Inr ()
   \<and> length (filter isStoryCall (calls (snd (run fs_inherited)))) = 1"
  by code_simp

text \<open>
  C9, amended.  In the record of a run every \<^verbatim>\<open>createIssue\<close> call comes before every
  \<^verbatim>\<open>createIssueAddToProject\<close> call.  When a story call has been made, every story file
  had been mapped without an exception: the parser accepted it, its identity is in the
  manifest, it has a role or a title, and its first segment is the key of an epic or an
  inherited name; and one epic issue had been created for every epic of the mapping.
  When the run gets as far as the stories and a story file is not in the manifest, or
  has neither role nor title, or has a first segment that is neither the key of an epic
  file nor an inherited name (or, generally, the mapping of a story file throws), the run
  ends with an exception in the state the epic phase left: no story call is made, and
  one epic issue has been created for every epic.  For the first story file that fails,
  the exception is that of line 128, of line 136, or the \<^verbatim>\<open>TypeError\<close> of line 146.
\<close>

theorem C9_stories_validated_first:
  assumes "createIssues cl p cfg fs = (r, st)"
  shows "(\<exists>pre post. calls st = pre @ post \<and> filter isStoryCall pre = []
            \<and> filter isStoryCall post = post \<and> filter isEpicCall post = [])
    \<and> ((\<exists>c\<in>set (calls st). isStoryCall c) \<longrightarrow>
          (\<exists>order ss. priorityFile fs = Inr order
             \<and> mapE (mkStory p order st) (mdFiles (storiesDir fs)) = Inr ss
             \<and> (\<forall>fc\<in>set (mdFiles (storiesDir fs)). \<exists>m.
                   p (snd fc) = Inr m \<and> storyId (fst fc) \<in> set order
                   \<and> (role (frontmatter m) \<notin> {None, Some []}
                       \<or> title (frontmatter m) \<notin> {None, Some []})
                   \<and> (fst (segments (fst fc)) \<in> set (map fst (epics st))
                       \<or> fst (segments (fst fc)) \<in> set objectPrototypeKeys)))
          \<and> length (filter isEpicCall (calls st)) = length (epics st))
    \<and> (\<forall>rid pinfo order e.
          reachesStories cl p cfg fs rid pinfo \<and> priorityFile fs = Inr order
          \<and> mapE (mkStory p order st) (mdFiles (storiesDir fs)) = Inl e \<longrightarrow>
          r = Inl e \<and> st = snd (epicPhase cl p cfg fs rid pinfo (start cfg))
          \<and> filter isStoryCall (calls st) = []
          \<and> length (filter isEpicCall (calls st)) = length (epics st))
    \<and> (\<forall>rid pinfo order name content m.
          reachesStories cl p cfg fs rid pinfo \<and> priorityFile fs = Inr order
          \<and> (name, content) \<in> set (mdFiles (storiesDir fs)) \<and> p content = Inr m
          \<and> (storyId name \<notin> set order
              \<or> (role (frontmatter m) \<in> {None, Some []}
                  \<and> title (frontmatter m) \<in> {None, Some []})
              \<or> (fst (segments name) \<notin> epicKey ` set (mdFiles (epicsDir fs))
                  \<and> fst (segments name) \<notin> set objectPrototypeKeys)) \<longrightarrow>
          (\<exists>e. r = Inl e) \<and> st = snd (epicPhase cl p cfg fs rid pinfo (start cfg))
          \<and> filter isStoryCall (calls st) = []
          \<and> length (filter isEpicCall (calls st)) = length (epics st))
    \<and> (\<forall>rid pinfo order pre name content post m.
          reachesStories cl p cfg fs rid pinfo \<and> priorityFile fs = Inr order
          \<and> mdFiles (storiesDir fs) = pre @ (name, content) # post
          \<and> \<not> isl (mapE (mkStory p order st) pre) \<and> p content = Inr m \<longrightarrow>
          (storyId name \<notin> set order \<longrightarrow>
             r = Inl (Error (''Story '' @ name @ '' not found in priority order'')))
          \<and> (storyId name \<in> set order \<and> role (frontmatter m) \<in> {None, Some []}
               \<and> title (frontmatter m) \<in> {None, Some []} \<longrightarrow>
             r = Inl (Error (''Title not set for '' @ name)))
          \<and> (storyId name \<in> set order
               \<and> (role (frontmatter m) \<notin> {None, Some []}
                   \<or> title (frontmatter m) \<notin> {None, Some []})
               \<and> fst (segments name) \<notin> epicKey ` set (mdFiles (epicsDir fs))
               \<and> fst (segments name) \<notin> set objectPrototypeKeys \<longrightarrow>
             r = Inl TypeError))"
proof -
  note keys = run_epic_keys[OF assms]
  have nk: "\<And>k. k \<in> set (map fst (epics st)) \<Longrightarrow> \<not> k \<notin> epicKey ` set (mdFiles (epicsDir fs))"
    using keys by blast
  have A: "\<exists>pre post. calls st = pre @ post \<and> filter isStoryCall pre = []
            \<and> filter isStoryCall post = post \<and> filter isEpicCall post = []"
    using assms by (rule run_call_order)
  have B: "(\<exists>c\<in>set (calls st). isStoryCall c) \<longrightarrow>
          (\<exists>order ss. priorityFile fs = Inr order
             \<and> mapE (mkStory p order st) (mdFiles (storiesDir fs)) = Inr ss
             \<and> (\<forall>fc\<in>set (mdFiles (storiesDir fs)). \<exists>m.
                   p (snd fc) = Inr m \<and> storyId (fst fc) \<in> set order
                   \<and> (role (frontmatter m) \<notin> {None, Some []}
                       \<or> title (frontmatter m) \<notin> {None, Some []})
                   \<and> (fst (segments (fst fc)) \<in> set (map fst (epics st))
                       \<or> fst (segments (fst fc)) \<in> set objectPrototypeKeys)))
          \<and> length (filter isEpicCall (calls st)) = length (epics st)"
  proof
    assume sc: "\<exists>c\<in>set (calls st). isStoryCall c"
    from assms have 1: "\<exists>order ss. priorityFile fs = Inr order
             \<and> mapE (mkStory p order st) (mdFiles (storiesDir fs)) = Inr ss
             \<and> (\<forall>fc\<in>set (mdFiles (storiesDir fs)). \<exists>m.
                   p (snd fc) = Inr m \<and> storyId (fst fc) \<in> set order
                   \<and> (role (frontmatter m) \<notin> {None, Some []}
                       \<or> title (frontmatter m) \<notin> {None, Some []})
                   \<and> (fst (segments (fst fc)) \<in> set (map fst (epics st))
                       \<or> fst (segments (fst fc)) \<in> set objectPrototypeKeys))"
    proof (cases rule: createIssues_stories)
      case (aborted e)
      from no_story_call[OF aborted(3)] sc show ?thesis by simp
    next
      case (mapped order ss rid pinfo n)
      have "\<forall>fc\<in>set (mdFiles (storiesDir fs)). \<exists>m.
                   p (snd fc) = Inr m \<and> storyId (fst fc) \<in> set order
                   \<and> (role (frontmatter m) \<notin> {None, Some []}
                       \<or> title (frontmatter m) \<notin> {None, Some []})
                   \<and> (fst (segments (fst fc)) \<in> set (map fst (epics st))
                       \<or> fst (segments (fst fc)) \<in> set objectPrototypeKeys)"
        using mapped_valid[OF mapped(2)] by blast
      with mapped(1,2) show ?thesis by blast
    qed
    from run_epicCalls[OF assms] obtain rid pinfo m where
      m: "filter isEpicCall (calls st)
         = map (\<lambda>ke. epicCall rid pinfo cfg (snd ke) (epicLabelId st))
             (take m (obj_entries (epics st)))"
        "r = Inr () \<or> (\<exists>c\<in>set (calls st). isStoryCall c) \<longrightarrow> m = length (epics st)" by blast
    from m(2) sc have "m = length (epics st)" by blast
    then have 2: "length (filter isEpicCall (calls st)) = length (epics st)"
      unfolding m(1) by (simp add: length_obj_entries)
    from 1 2 show "(\<exists>order ss. priorityFile fs = Inr order
             \<and> mapE (mkStory p order st) (mdFiles (storiesDir fs)) = Inr ss
             \<and> (\<forall>fc\<in>set (mdFiles (storiesDir fs)). \<exists>m.
                   p (snd fc) = Inr m \<and> storyId (fst fc) \<in> set order
                   \<and> (role (frontmatter m) \<notin> {None, Some []}
                       \<or> title (frontmatter m) \<notin> {None, Some []})
                   \<and> (fst (segments (fst fc)) \<in> set (map fst (epics st))
                       \<or> fst (segments (fst fc)) \<in> set objectPrototypeKeys)))
          \<and> length (filter isEpicCall (calls st)) = length (epics st)" ..
  qed
  have C: "\<forall>rid pinfo order e.
          reachesStories cl p cfg fs rid pinfo \<and> priorityFile fs = Inr order
          \<and> mapE (mkStory p order st) (mdFiles (storiesDir fs)) = Inl e \<longrightarrow>
          r = Inl e \<and> st = snd (epicPhase cl p cfg fs rid pinfo (start cfg))
          \<and> filter isStoryCall (calls st) = []
          \<and> length (filter isEpicCall (calls st)) = length (epics st)"
  proof (intro allI impI)
    fix rid pinfo order e
    assume h: "reachesStories cl p cfg fs rid pinfo \<and> priorityFile fs = Inr order
          \<and> mapE (mkStory p order st) (mdFiles (storiesDir fs)) = Inl e"
    then have re: "reachesStories cl p cfg fs rid pinfo" and pf: "priorityFile fs = Inr order"
      and me: "mapE (mkStory p order st) (mdFiles (storiesDir fs)) = Inl e" by blast+
    from assms re pf me
    show "r = Inl e \<and> st = snd (epicPhase cl p cfg fs rid pinfo (start cfg))
          \<and> filter isStoryCall (calls st) = []
          \<and> length (filter isEpicCall (calls st)) = length (epics st)"
      by (rule reaches_invalid)
  qed
  have D: "\<forall>rid pinfo order name content m.
          reachesStories cl p cfg fs rid pinfo \<and> priorityFile fs = Inr order
          \<and> (name, content) \<in> set (mdFiles (storiesDir fs)) \<and> p content = Inr m
          \<and> (storyId name \<notin> set order
              \<or> (role (frontmatter m) \<in> {None, Some []}
                  \<and> title (frontmatter m) \<in> {None, Some []})
              \<or> (fst (segments name) \<notin> epicKey ` set (mdFiles (epicsDir fs))
                  \<and> fst (segments name) \<notin> set objectPrototypeKeys)) \<longrightarrow>
          (\<exists>e. r = Inl e) \<and> st = snd (epicPhase cl p cfg fs rid pinfo (start cfg))
          \<and> filter isStoryCall (calls st) = []
          \<and> length (filter isEpicCall (calls st)) = length (epics st)"
  proof (intro allI impI)
    fix rid pinfo order name content m
    assume h: "reachesStories cl p cfg fs rid pinfo \<and> priorityFile fs = Inr order
          \<and> (name, content) \<in> set (mdFiles (storiesDir fs)) \<and> p content = Inr m
          \<and> (storyId name \<notin> set order
              \<or> (role (frontmatter m) \<in> {None, Some []}
                  \<and> title (frontmatter m) \<in> {None, Some []})
              \<or> (fst (segments name) \<notin> epicKey ` set (mdFiles (epicsDir fs))
                  \<and> fst (segments name) \<notin> set objectPrototypeKeys))"
    then have re: "reachesStories cl p cfg fs rid pinfo" and pf: "priorityFile fs = Inr order"
      and mem: "(name, content) \<in> set (mdFiles (storiesDir fs))" and pm: "p content = Inr m"
      and bad: "storyId name \<notin> set order
              \<or> (role (frontmatter m) \<in> {None, Some []}
                  \<and> title (frontmatter m) \<in> {None, Some []})
              \<or> (fst (segments name) \<notin> epicKey ` set (mdFiles (epicsDir fs))
                  \<and> fst (segments name) \<notin> set objectPrototypeKeys)" by blast+
    from pm nk bad obtain e' where "mkStory p order st (name, content) = Inl e'"
      using story_fails[of p content m name st
          "fst (segments name) \<notin> epicKey ` set (mdFiles (epicsDir fs))" order] by blast
    with mem have "\<exists>e. mapE (mkStory p order st) (mdFiles (storiesDir fs)) = Inl e"
      by (rule mapE_fails_mem)
    then obtain e where "mapE (mkStory p order st) (mdFiles (storiesDir fs)) = Inl e" ..
    from reaches_invalid[OF assms re pf this]
    show "(\<exists>e. r = Inl e) \<and> st = snd (epicPhase cl p cfg fs rid pinfo (start cfg))
          \<and> filter isStoryCall (calls st) = []
          \<and> length (filter isEpicCall (calls st)) = length (epics st)" by blast
  qed
  have E: "\<forall>rid pinfo order pre name content post m.
          reachesStories cl p cfg fs rid pinfo \<and> priorityFile fs = Inr order
          \<and> mdFiles (storiesDir fs) = pre @ (name, content) # post
          \<and> \<not> isl (mapE (mkStory p order st) pre) \<and> p content = Inr m \<longrightarrow>
          (storyId name \<notin> set order \<longrightarrow>
             r = Inl (Error (''Story '' @ name @ '' not found in priority order'')))
          \<and> (storyId name \<in> set order \<and> role (frontmatter m) \<in> {None, Some []}
               \<and> title (frontmatter m) \<in> {None, Some []} \<longrightarrow>
             r = Inl (Error (''Title not set for '' @ name)))
          \<and> (storyId name \<in> set order
               \<and> (role (frontmatter m) \<notin> {None, Some []}
                   \<or> title (frontmatter m) \<notin> {None, Some []})
               \<and> fst (segments name) \<notin> epicKey ` set (mdFiles (epicsDir fs))
               \<and> fst (segments name) \<notin> set objectPrototypeKeys \<longrightarrow>
             r = Inl TypeError)"
  proof (intro allI impI)
    fix rid pinfo order pre name content post m
    assume h: "reachesStories cl p cfg fs rid pinfo \<and> priorityFile fs = Inr order
          \<and> mdFiles (storiesDir fs) = pre @ (name, content) # post
          \<and> \<not> isl (mapE (mkStory p order st) pre) \<and> p content = Inr m"
    then have re: "reachesStories cl p cfg fs rid pinfo" and pf: "priorityFile fs = Inr order"
      and files: "mdFiles (storiesDir fs) = pre @ (name, content) # post"
      and pre: "\<not> isl (mapE (mkStory p order st) pre)" and pm: "p content = Inr m" by blast+
    have step: "\<And>e. mkStory p order st (name, content) = Inl e \<Longrightarrow> r = Inl e"
    proof -
      fix e assume "mkStory p order st (name, content) = Inl e"
      with pre have "mapE (mkStory p order st) (pre @ (name, content) # post) = Inl e"
        by (rule mapE_isl)
      then have "mapE (mkStory p order st) (mdFiles (storiesDir fs)) = Inl e" unfolding files .
      from reaches_invalid[OF assms re pf this] show "r = Inl e" by blast
    qed
    have 1: "storyId name \<notin> set order \<longrightarrow>
             r = Inl (Error (''Story '' @ name @ '' not found in priority order''))"
    proof
      assume "storyId name \<notin> set order"
      with pm have "mkStory p order st (name, content)
          = Inl (Error (''Story '' @ name @ '' not found in priority order''))"
        by (rule mkStory_unlisted)
      then show "r = Inl (Error (''Story '' @ name @ '' not found in priority order''))"
        by (rule step)
    qed
    have 2: "storyId name \<in> set order \<and> role (frontmatter m) \<in> {None, Some []}
               \<and> title (frontmatter m) \<in> {None, Some []} \<longrightarrow>
             r = Inl (Error (''Title not set for '' @ name))"
    proof
      assume a: "storyId name \<in> set order \<and> role (frontmatter m) \<in> {None, Some []}
               \<and> title (frontmatter m) \<in> {None, Some []}"
      then have "\<not> (truthy (role (frontmatter m)) \<or> truthy (title (frontmatter m)))"
        unfolding truthy_iff by blast
      then have "\<not> truthy (storyTitle (frontmatter m))" unfolding storyTitle_truthy .
      with pm a have "mkStory p order st (name, content)
          = Inl (Error (''Title not set for '' @ name))"
        by (intro mkStory_untitled) blast+
      then show "r = Inl (Error (''Title not set for '' @ name))" by (rule step)
    qed
    have 3: "storyId name \<in> set order
               \<and> (role (frontmatter m) \<notin> {None, Some []}
                   \<or> title (frontmatter m) \<notin> {None, Some []})
               \<and> fst (segments name) \<notin> epicKey ` set (mdFiles (epicsDir fs))
               \<and> fst (segments name) \<notin> set objectPrototypeKeys \<longrightarrow>
             r = Inl TypeError"
    proof
      assume a: "storyId name \<in> set order
               \<and> (role (frontmatter m) \<notin> {None, Some []}
                   \<or> title (frontmatter m) \<notin> {None, Some []})
               \<and> fst (segments name) \<notin> epicKey ` set (mdFiles (epicsDir fs))
               \<and> fst (segments name) \<notin> set objectPrototypeKeys"
      then have "truthy (role (frontmatter m)) \<or> truthy (title (frontmatter m))"
        unfolding truthy_iff by blast
      then have t: "truthy (storyTitle (frontmatter m))" unfolding storyTitle_truthy .
      from a nk have k: "fst (segments name) \<notin> set (map fst (epics st))" by blast
      from a have l: "storyId name \<in> set order"
        and o: "fst (segments name) \<notin> set objectPrototypeKeys" by blast+
      from pm l t k o have "mkStory p order st (name, content) = Inl TypeError"
        by (rule mkStory_orphan)
      then show "r = Inl TypeError" by (rule step)
    qed
    from 1 2 3 show "(storyId name \<notin> set order \<longrightarrow>
             r = Inl (Error (''Story '' @ name @ '' not found in priority order'')))
          \<and> (storyId name \<in> set order \<and> role (frontmatter m) \<in> {None, Some []}
               \<and> title (frontmatter m) \<in> {None, Some []} \<longrightarrow>
             r = Inl (Error (''Title not set for '' @ name)))
          \<and> (storyId name \<in> set order
               \<and> (role (frontmatter m) \<notin> {None, Some []}
                   \<or> title (frontmatter m) \<notin> {None, Some []})
               \<and> fst (segments name) \<notin> epicKey ` set (mdFiles (epicsDir fs))
               \<and> fst (segments name) \<notin> set objectPrototypeKeys \<longrightarrow>
             r = Inl TypeError)" by (intro conjI)
  qed
  from A B C D E show ?thesis by (intro conjI)
qed

text \<open>
  On \<open>fs_unlisted\<close> the second story is not in the manifest, on \<open>fs_notitle\<close> it has
  neither role nor title: the one epic issue has been created and no story issue.  On
  \<open>fs_board\<close> both stories are created after both epics.
\<close>

theorem C9_stories_validated_first_witness:
  "reachesStories tracker (parse_table tab) cfg0 fs_unlisted ''R'' ()
   \<and> mapE (mkStory (parse_table tab) [''001-001''] (snd (run fs_unlisted)))
         (mdFiles (storiesDir fs_unlisted))
       = Inl (Error ''Story 001-002-b.md not found in priority order'')
   \<and> fst (run fs_unlisted) = Inl (Error ''Story 001-002-b.md not found in priority order'')
   \<and> filter isStoryCall (calls (snd (run fs_unlisted))) = []
   \<and> length (filter isEpicCall (calls (snd (run fs_unlisted)))) = 1
   \<and> (\<exists>c\<in>set (calls (snd (run fs_board))). isStoryCall c)
   \<and> length (filter isEpicCall (calls (snd (run fs_board)))) = 2
   \<and> reachesStories tracker (parse_table tab) cfg0 fs_notitle ''R'' ()
   \<and> (''001-002-u.md'', ''story untitled'') \<in> set (mdFiles (storiesDir fs_notitle))
   \<and> storyId ''001-002-u.md'' \<in> set [''001-001'', ''001-002'']
   \<and> role (frontmatter (md None (Some ''backend'') None None None ''su'')) \<in> {None, Some []}
   \<and> title (frontmatter (md None (Some ''backend'') None None None ''su'')) \<in> {None, Some []}
   \<and> fst (run fs_notitle) = Inl (Error ''Title not set for 001-002-u.md'')
   \<and> filter isStoryCall (calls (snd (run fs_notitle))) = []
   \<and> length (filter isEpicCall (calls (snd (run fs_notitle)))) = 1"
proof -
  let ?e = "Error ''Story 001-002-b.md not found in priority order''"
  let ?m = "md None (Some ''backend'') None None None ''su''"
  have a1: "createIssues tracker (parse_table tab) cfg0 fs_unlisted
          = (fst (run fs_unlisted), snd (run fs_unlisted))"
    by (simp add: run_def)
  have b1: "createIssues tracker (parse_table tab) cfg0 fs_board
          = (fst (run fs_board), snd (run fs_board))"
    by (simp add: run_def)
  have t1: "createIssues tracker (parse_table tab) cfg0 fs_notitle
          = (fst (run fs_notitle), snd (run fs_notitle))"
    by (simp add: run_def)
  have h1: "reachesStories tracker (parse_table tab) cfg0 fs_unlisted ''R'' ()" by code_simp
  have h2: "priorityFile fs_unlisted = Inr [''001-001'']" by (simp add: fs_unlisted_def)
  have h3: "mapE (mkStory (parse_table tab) [''001-001''] (snd (run fs_unlisted)))
         (mdFiles (storiesDir fs_unlisted)) = Inl ?e" by code_simp
  have n1: "length (epics (snd (run fs_unlisted))) = 1" by code_simp
  have n2: "length (epics (snd (run fs_board))) = 2" by code_simp
  have n3: "length (epics (snd (run fs_notitle))) = 1" by code_simp
  have sc: "\<exists>c\<in>set (calls (snd (run fs_board))). isStoryCall c" by code_simp
  have u1: "reachesStories tracker (parse_table tab) cfg0 fs_notitle ''R'' ()" by code_simp
  have u2: "priorityFile fs_notitle = Inr [''001-001'', ''001-002'']"
    by (simp add: fs_notitle_def)
  have u3: "(''001-002-u.md'', ''story untitled'') \<in> set (mdFiles (storiesDir fs_notitle))"
    by code_simp
  have u4: "parse_table tab ''story untitled'' = Inr ?m" by code_simp
  have u5: "role (frontmatter ?m) \<in> {None, Some []}" by code_simp
  have u6: "title (frontmatter ?m) \<in> {None, Some []}" by code_simp
  have u7: "storyId ''001-002-u.md'' \<in> set [''001-001'', ''001-002'']" by code_simp
  have u8: "mdFiles (storiesDir fs_notitle)
      = [(''001-001-a.md'', ''story a'')] @ (''001-002-u.md'', ''story untitled'') # []"
    by code_simp
  have u9: "\<not> isl (mapE (mkStory (parse_table tab) [''001-001'', ''001-002'']
                       (snd (run fs_notitle))) [(''001-001-a.md'', ''story a'')])"
    by code_simp
  note c = C9_stories_validated_first[OF a1, THEN conjunct2, THEN conjunct2, THEN conjunct1,
      THEN spec, THEN spec, THEN spec, THEN spec, THEN mp, OF conjI[OF h1 conjI[OF h2 h3]]]
  note d = C9_stories_validated_first[OF b1, THEN conjunct2, THEN conjunct1, THEN mp, OF sc]
  note f = C9_stories_validated_first[OF t1, THEN conjunct2, THEN conjunct2, THEN conjunct2,
      THEN conjunct1, THEN spec, THEN spec, THEN spec, THEN spec, THEN spec, THEN spec, THEN mp,
      OF conjI[OF u1 conjI[OF u2 conjI[OF u3 conjI[OF u4 disjI2[OF disjI1[OF conjI[OF u5 u6]]]]]]]]
  note g = C9_stories_validated_first[OF t1, THEN conjunct2, THEN conjunct2, THEN conjunct2,
      THEN conjunct2, THEN spec, THEN spec, THEN spec, THEN spec, THEN spec, THEN spec, THEN spec,
      THEN spec, THEN mp, OF conjI[OF u1 conjI[OF u2 conjI[OF u8 conjI[OF u9 u4]]]],
      THEN conjunct2, THEN conjunct1, THEN mp, OF conjI[OF u7 conjI[OF u5 u6]]]
  from c have c1: "fst (run fs_unlisted) = Inl ?e"
    and c2: "filter isStoryCall (calls (snd (run fs_unlisted))) = []"
    and c3: "length (filter isEpicCall (calls (snd (run fs_unlisted))))
               = length (epics (snd (run fs_unlisted)))" by blast+
  from d have d1: "length (filter isEpicCall (calls (snd (run fs_board))))
               = length (epics (snd (run fs_board)))" by blast
  from f have f2: "filter isStoryCall (calls (snd (run fs_notitle))) = []"
    and f3: "length (filter isEpicCall (calls (snd (run fs_notitle))))
               = length (epics (snd (run fs_notitle)))" by blast+
  from g have g1: "fst (run fs_notitle) = Inl (Error ''Title not set for 001-002-u.md'')"
    by simp
  from h1 h3 c1 c2 c3[unfolded n1] sc d1[unfolded n2] u1 u3 u7 u5 u6 g1 f2 f3[unfolded n3]
  show ?thesis by (intro conjI)
qed

text \<open>
  C10.  Take the epic file that comes last in the listing among those with its key, in a
  run that ends without error or makes a story call.  The mapping has exactly one entry
  under that key, and it holds the record parsed from that file.  The \<^verbatim>\<open>createIssue\<close>
  calls are those of the entries in the order of \<^verbatim>\<open>Object.values\<close>, one call for each
  entry, and the keys of the entries are pairwise distinct: one epic issue is created for
  that key, from that record.  The identifier kept in the entry is the one the tracker
  returned to that call, and every story whose first segment is that key is created with
  that identifier as its parent.  The \<^verbatim>\<open>createIssueAddToProject\<close> calls of the run are
  those of the mapped stories in the order of their priorities, with the parent, the
  title, the body and the label of each story, all of them when the run ends without
  error; each story file is mapped to its story by line 119 to 151, and in a run without
  error the call of every story file whose first segment is that key is in the record
  with that identifier as its parent.
\<close>

theorem C10_duplicate_epic_files:
  assumes "createIssues cl p cfg fs = (r, st)"
    and "mdFiles (epicsDir fs) = pre @ (name, content) # post"
    and "\<forall>fc\<in>set post. epicKey fc \<noteq> epicKey (name, content)"
    and "r = Inr () \<or> (\<exists>c\<in>set (calls st). isStoryCall c)"
  shows "\<exists>m e rid pinfo h t order ss n.
      p content = Inr m
    \<and> distinct (map fst (epics st))
    \<and> map_of (epics st) (epicKey (name, content)) = Some e \<and> epic e = epic (newEpic m)
    \<and> filter isEpicCall (calls st)
        = map (\<lambda>ke. epicCall rid pinfo cfg (snd ke) (epicLabelId st)) (obj_entries (epics st))
    \<and> distinct (map fst (obj_entries (epics st)))
    \<and> createIssue cl h (epicCall rid pinfo cfg e (epicLabelId st)) = Inr (issueId e)
    \<and> calls st = h @ epicCall rid pinfo cfg e (epicLabelId st) # t
    \<and> priorityFile fs = Inr order \<and> storiesWithEpic st = sort_key priority ss
    \<and> list_all2 (\<lambda>fc s. fst (segments (fst fc)) = epicKey (name, content)
                   \<longrightarrow> epic_issueId s = Some (issueId e))
         (mdFiles (storiesDir fs)) ss
    \<and> filter isStoryCall (calls st)
        = map (\<lambda>s. CreateIssueAddToProject rid pinfo (owner cfg) (repo cfg)
                     (epic_issueId s) (story_title s) (storyBody s) (epic_labelId s))
            (take n (sort_key priority ss))
    \<and> n \<le> length ss \<and> (r = Inr () \<longrightarrow> n = length ss)
    \<and> list_all2 (\<lambda>fc s. mkStory p order st fc = Inr s
           \<and> (fst (segments (fst fc)) = epicKey (name, content) \<and> r = Inr ()
                \<longrightarrow> CreateIssueAddToProject rid pinfo (owner cfg) (repo cfg)
                      (Some (issueId e)) (story_title s) (storyBody s) (epic_labelId s)
                    \<in> set (filter isStoryCall (calls st))))
         (mdFiles (storiesDir fs)) ss"
  using assms(1)
proof (cases rule: createIssues_cases)
  case (early e)
  from no_story_call[OF early(7)] early(1) assms(4) show ?thesis by simp
next
  case (epic rid pinfo e)
  have "filter isStoryCall (calls st) = []" using epicPhase_labels[OF epic(1)] by blast
  from no_story_call[OF this] epic(2) assms(4) show ?thesis by simp
next
  case (story rid pinfo st3)
  have z: "filter isStoryCall (calls st3) = []" using epicPhase_labels[OF story(1)] by blast
  from story(2) show ?thesis
  proof (cases rule: storyPhase_cases)
    case (manifest e)
    have "filter isStoryCall (calls st) = []" unfolding manifest(3) by (rule z)
    from no_story_call[OF this] manifest(2) assms(4) show ?thesis by simp
  next
    case (invalid order e)
    have "filter isStoryCall (calls st) = []" unfolding invalid(4) by (rule z)
    from no_story_call[OF this] invalid(3) assms(4) show ?thesis by simp
  next
    case (created order ss n)
    let ?k = "epicKey (name, content)"
    let ?sc = "\<lambda>s. CreateIssueAddToProject rid pinfo (owner cfg) (repo cfg)
                     (epic_issueId s) (story_title s) (storyBody s) (epic_labelId s)"
    let ?post = "map (storyCall rid pinfo cfg) (take n (sort_key priority ss))"
    have sc: "storyCall rid pinfo cfg = ?sc" by (rule ext) (simp add: storyCall_def)
    note f = storyPhase_frame[OF story(2)]
    have e1: "epics st = epics st3" using f by blast
    have e2: "filter isEpicCall (calls st) = filter isEpicCall (calls st3)" using f by blast
    have e3: "epicLabelId st = epicLabelId st3" by (rule epicLabelId_cong) (use f in blast)
    have e4: "calls st = calls st3 @ ?post" by (simp add: created(4))
    have e5: "storiesWithEpic st = sort_key priority ss" by (simp add: created(4))
    have e6: "labelsByName st = labelsByName st3" using f by blast
    have mk: "mkStory p order st = mkStory p order st3" using e1 e6 by (rule mkStory_cong)
    from epicPhase_last_file[OF story(1) assms(2,3)] obtain m e h t where
      x: "p content = Inr m" "map_of (epics st3) ?k = Some e" "epic e = epic (newEpic m)"
         "createIssue cl h (epicCall rid pinfo cfg e (epicLabelId st3)) = Inr (issueId e)"
         "calls st3 = h @ epicCall rid pinfo cfg e (epicLabelId st3) # t" by blast
    note k = epicPhase_keys[OF story(1)]
    have 2: "distinct (map fst (epics st))" unfolding e1 using k by blast
    from epicPhase_epicCalls[OF story(1)] obtain m' where
      m': "filter isEpicCall (calls st3)
            = map (\<lambda>ke. epicCall rid pinfo cfg (snd ke) (epicLabelId st3))
                (take m' (obj_entries (epics st3)))" "m' = length (epics st3)" by blast
    have "take m' (obj_entries (epics st3)) = obj_entries (epics st3)"
      by (simp add: m'(2) length_obj_entries)
    then have 5: "filter isEpicCall (calls st)
        = map (\<lambda>ke. epicCall rid pinfo cfg (snd ke) (epicLabelId st)) (obj_entries (epics st))"
      unfolding e1 e2 e3 m'(1) by simp
    have 6: "distinct (map fst (obj_entries (epics st)))"
      using 2 by (rule distinct_obj_entries)
    have 8: "calls st = h @ epicCall rid pinfo cfg e (epicLabelId st) # (t @ ?post)"
      unfolding e3 e4 x(5) by simp
    have 11: "list_all2 (\<lambda>fc s. fst (segments (fst fc)) = ?k
                   \<longrightarrow> epic_issueId s = Some (issueId e))
         (mdFiles (storiesDir fs)) ss"
      using created(2) x(2) by (rule mapped_parents)
    have "filter isStoryCall ?post = ?post"
      by (simp add: filter_map comp_def storyCall_def)
    then have 12: "filter isStoryCall (calls st) = map ?sc (take n (sort_key priority ss))"
      unfolding e4 filter_append z sc by simp
    have 13: "n \<le> length ss" by (rule created(3))
    have 14: "r = Inr () \<longrightarrow> n = length ss" by (rule created(5))
    have 15: "list_all2 (\<lambda>fc s. mkStory p order st fc = Inr s
           \<and> (fst (segments (fst fc)) = ?k \<and> r = Inr ()
                \<longrightarrow> CreateIssueAddToProject rid pinfo (owner cfg) (repo cfg)
                      (Some (issueId e)) (story_title s) (storyBody s) (epic_labelId s)
                    \<in> set (filter isStoryCall (calls st))))
         (mdFiles (storiesDir fs)) ss"
    proof (rule list_all2_mono[OF mapped_attached[OF created(2) x(2)]])
      fix fc s
      assume a: "mkStory p order st3 fc = Inr s \<and> s \<in> set ss
             \<and> (fst (segments (fst fc)) = ?k \<longrightarrow> epic_issueId s = Some (issueId e))"
      have b: "mkStory p order st fc = Inr s" unfolding mk using a by (rule conjunct1)
      have c: "CreateIssueAddToProject rid pinfo (owner cfg) (repo cfg)
                      (Some (issueId e)) (story_title s) (storyBody s) (epic_labelId s)
                    \<in> set (filter isStoryCall (calls st))"
        if d: "fst (segments (fst fc)) = ?k" "r = Inr ()"
      proof -
        have n: "n = length ss" using 14 d(2) by (rule mp)
        have "s \<in> set (take n (sort_key priority ss))" unfolding n using a by simp
        then have "?sc s \<in> set (filter isStoryCall (calls st))" unfolding 12 by simp
        moreover have "epic_issueId s = Some (issueId e)" using a d(1) by blast
        ultimately show ?thesis by simp
      qed
      from b c show "mkStory p order st fc = Inr s
           \<and> (fst (segments (fst fc)) = ?k \<and> r = Inr ()
                \<longrightarrow> CreateIssueAddToProject rid pinfo (owner cfg) (repo cfg)
                      (Some (issueId e)) (story_title s) (storyBody s) (epic_labelId s)
                    \<in> set (filter isStoryCall (calls st)))" by blast
    qed
    from x(1) 2 x(2)[folded e1] x(3) 5 6 x(4)[folded e3] 8 created(1) e5 11 12 13 14 15
    show ?thesis by blast
  qed
qed

text \<open>
  On \<open>fs_dup\<close> the files \<^verbatim>\<open>001-one.md\<close> and \<^verbatim>\<open>001-three.md\<close> share the key \<^verbatim>\<open>001\<close>: the one
  epic issue is that of the second file, and the story \<^verbatim>\<open>001-001\<close> is attached to it.
\<close>

theorem C10_duplicate_epic_files_witness:
  "mdFiles (epicsDir fs_dup)
     = [(''001-one.md'', ''epic one'')] @ (''001-three.md'', ''epic three'') # []
   \<and> epicKey (''001-one.md'', ''epic one'') = epicKey (''001-three.md'', ''epic three'')
   \<and> fst (run fs_dup) = Inr ()
   \<and> filter isEpicCall (calls (snd (run fs_dup)))
       = [CreateIssue ''R'' () ''o'' ''r'' (Some ''Epic Three'')
            ''As a user, I want to act so that gain.'' ''L-Epic'']
   \<and> map epic_issueId (storiesWithEpic (snd (run fs_dup))) = [Some ''I-Epic Three'']
   \<and> filter isStoryCall (calls (snd (run fs_dup)))
       = [CreateIssueAddToProject ''R'' () ''o'' ''r'' (Some ''I-Epic Three'')
            ''Story A'' ''sa'' None]
   \<and> (\<exists>m e rid pinfo h t order ss n.
        parse_table tab ''epic three'' = Inr m
      \<and> distinct (map fst (epics (snd (run fs_dup))))
      \<and> map_of (epics (snd (run fs_dup))) (epicKey (''001-three.md'', ''epic three'')) = Some e
      \<and> epic e = epic (newEpic m)
      \<and> filter isEpicCall (calls (snd (run fs_dup)))
          = map (\<lambda>ke. epicCall rid pinfo cfg0 (snd ke) (epicLabelId (snd (run fs_dup))))
              (obj_entries (epics (snd (run fs_dup))))
      \<and> distinct (map fst (obj_entries (epics (snd (run fs_dup)))))
      \<and> createIssue tracker h (epicCall rid pinfo cfg0 e (epicLabelId (snd (run fs_dup))))
          = Inr (issueId e)
      \<and> calls (snd (run fs_dup))
          = h @ epicCall rid pinfo cfg0 e (epicLabelId (snd (run fs_dup))) # t
      \<and> priorityFile fs_dup = Inr order
      \<and> storiesWithEpic (snd (run fs_dup)) = sort_key priority ss
      \<and> list_all2 (\<lambda>fc s. fst (segments (fst fc)) = epicKey (''001-three.md'', ''epic three'')
                     \<longrightarrow> epic_issueId s = Some (issueId e))
           (mdFiles (storiesDir fs_dup)) ss
      \<and> filter isStoryCall (calls (snd (run fs_dup)))
          = map (\<lambda>s. CreateIssueAddToProject rid pinfo (owner cfg0) (repo cfg0)
                       (epic_issueId s) (story_title s) (storyBody s) (epic_labelId s))
              (take n (sort_key priority ss))
      \<and> n \<le> length ss \<and> (fst (run fs_dup) = Inr () \<longrightarrow> n = length ss)
      \<and> list_all2 (\<lambda>fc s. mkStory (parse_table tab) order (snd (run fs_dup)) fc = Inr s
             \<and> (fst (segments (fst fc)) = epicKey (''001-three.md'', ''epic three'')
                  \<and> fst (run fs_dup) = Inr ()
                  \<longrightarrow> CreateIssueAddToProject rid pinfo (owner cfg0) (repo cfg0)
                        (Some (issueId e)) (story_title s) (storyBody s) (epic_labelId s)
                      \<in> set (filter isStoryCall (calls (snd (run fs_dup))))))
           (mdFiles (storiesDir fs_dup)) ss)"
proof -
  have a1: "createIssues tracker (parse_table tab) cfg0 fs_dup
          = (fst (run fs_dup), snd (run fs_dup))"
    by (simp add: run_def)
  have a2: "mdFiles (epicsDir fs_dup)
     = [(''001-one.md'', ''epic one'')] @ (''001-three.md'', ''epic three'') # []"
    by code_simp
  have a3: "\<forall>fc\<in>set []. epicKey fc \<noteq> epicKey (''001-three.md'', ''epic three'')" by simp
  have h: "fst (run fs_dup) = Inr ()" by code_simp
  then have a4: "fst (run fs_dup) = Inr () \<or> (\<exists>c\<in>set (calls (snd (run fs_dup))). isStoryCall c)" ..
  have k: "epicKey (''001-one.md'', ''epic one'') = epicKey (''001-three.md'', ''epic three'')"
    by code_simp
  have c1: "filter isEpicCall (calls (snd (run fs_dup)))
       = [CreateIssue ''R'' () ''o'' ''r'' (Some ''Epic Three'')
            ''As a user, I want to act so that gain.'' ''L-Epic'']" by code_simp
  have c2: "map epic_issueId (storiesWithEpic (snd (run fs_dup))) = [Some ''I-Epic Three'']"
    by code_simp
  have c3: "filter isStoryCall (calls (snd (run fs_dup)))
       = [CreateIssueAddToProject ''R'' () ''o'' ''r'' (Some ''I-Epic Three'')
            ''Story A'' ''sa'' None]" by code_simp
  from a2 k h c1 c2 c3 C10_duplicate_epic_files[OF a1 a2 a3 a4] show ?thesis by (intro conjI)
qed

end
